theory Spec2Isabelle
  imports Complex_Main
begin

section \<open>Recurring-appointment scheduling engine of counseling-server.js\<close>

text \<open>
  The development embeds the scheduling core of \<^verbatim>\<open>src/counseling-server.js\<close>:
  \<^verbatim>\<open>parseRRule\<close>, \<^verbatim>\<open>genWeeklyInstances\<close>, the handler of
  \<^verbatim>\<open>GET /api/schedule/week\<close> and the handler of \<^verbatim>\<open>GET /api/ics\<close>.

  Conventions of the embedding.
  \<^item> Time values are integral epoch milliseconds (\<open>int\<close>). A JavaScript \<^verbatim>\<open>Date\<close> is
    an \<open>int option\<close>: \<open>None\<close> is the Invalid Date, whose time value is NaN; every
    comparison with NaN is false. Arithmetic on time values is exact; the rounding of
    IEEE doubles, which begins beyond \<open>2 ^ 53\<close>, is not modelled.
  \<^item> The columns of the tables hold what the schema declares: an \<^verbatim>\<open>INTEGER\<close> column an
    integer or, when it may be null, \<open>None\<close>; a \<^verbatim>\<open>TEXT\<close> column a string.
  \<^item> Local time is UTC plus a fixed offset \<open>tz\<close> (milliseconds east of Greenwich), a
    parameter of every function that reads local calendar fields. Daylight saving
    changes are not modelled.
  \<^item> Strings are lists of 8-bit characters; \<^verbatim>\<open>toUpperCase\<close> acts on the letters a-z.
  \<^item> The result of \<^verbatim>\<open>Number(text)\<close> is a value of \<open>jsnum\<close>; the conversion itself is
    a parameter \<open>Number\<close> of the generator, so that every theorem holds for the
    conversion of ECMAScript whatever it does on a given text.
  \<^item> Tables of the database are lists of rows in store order; a \<^verbatim>\<open>SELECT\<close> returns the
    matching rows in that order, and a join lists the rows of its left table in that
    order. Failures of the database itself are not modelled.
\<close>

subsection \<open>Strings\<close>

text \<open>\<^verbatim>\<open>text.split(sep)\<close> for a separator of one character: the result is never empty,
  and the empty text splits into one empty piece.\<close>

fun split_on :: "char \<Rightarrow> string \<Rightarrow> string list" where
  "split_on sep [] = [[]]"
| "split_on sep (x # xs) =
     (if x = sep then [] # split_on sep xs
      else (case split_on sep xs of [] \<Rightarrow> [[x]] | p # ps \<Rightarrow> (x # p) # ps))"

definition upper_char :: "char \<Rightarrow> char" where
  "upper_char c =
     (if 97 \<le> (of_char c :: nat) \<and> (of_char c :: nat) \<le> 122
      then char_of ((of_char c :: nat) - 32) else c)"

definition toUpperCase :: "string \<Rightarrow> string" where
  "toUpperCase s = map upper_char s"

subsection \<open>JavaScript numbers\<close>

datatype jsnum = NaN | NegInf | Fin rat | PosInf

text \<open>\<^verbatim>\<open>Math.max(a, b)\<close>: NaN if either argument is NaN.\<close>

fun Math_max :: "jsnum \<Rightarrow> jsnum \<Rightarrow> jsnum" where
  "Math_max NaN _ = NaN"
| "Math_max _ NaN = NaN"
| "Math_max PosInf _ = PosInf"
| "Math_max _ PosInf = PosInf"
| "Math_max NegInf b = b"
| "Math_max a NegInf = a"
| "Math_max (Fin a) (Fin b) = Fin (max a b)"

text \<open>\<^verbatim>\<open>w % n === 0\<close> for an integer \<open>w\<close>: the remainder of a finite number by an
  infinite one is the number itself, by zero or NaN it is NaN, and otherwise it is
  exact, so it is zero exactly when \<open>w\<close> is an integral multiple of \<open>n\<close>.\<close>

fun rem_is_zero :: "int \<Rightarrow> jsnum \<Rightarrow> bool" where
  "rem_is_zero w NaN = False"
| "rem_is_zero w NegInf = (w = 0)"
| "rem_is_zero w PosInf = (w = 0)"
| "rem_is_zero w (Fin n) =
     (n \<noteq> 0 \<and> of_int \<lfloor>of_int w / n\<rfloor> = (of_int w / n :: rat))"

subsection \<open>Dates\<close>

type_synonym date = "int option"

definition dayMs :: int where
  "dayMs = 24 * 3600 * 1000"

definition maxTime :: int where
  "maxTime = 8640000000000000"

text \<open>The time value of a Date is clipped to 100,000,000 days around the epoch.\<close>

definition TimeClip :: "int \<Rightarrow> date" where
  "TimeClip t = (if \<bar>t\<bar> \<le> maxTime then Some t else None)"

definition newDate :: "int \<Rightarrow> date" where
  "newDate t = TimeClip t"

text \<open>\<^verbatim>\<open>getDay()\<close>: 0 is Sunday; 1 January 1970 was a Thursday.\<close>

definition getDay :: "int \<Rightarrow> date \<Rightarrow> nat option" where
  "getDay tz d = map_option (\<lambda>t. nat ((((t + tz) div dayMs) + 4) mod 7)) d"

definition getHours :: "int \<Rightarrow> date \<Rightarrow> int option" where
  "getHours tz d = map_option (\<lambda>t. ((t + tz) mod dayMs) div 3600000) d"

definition getMinutes :: "int \<Rightarrow> date \<Rightarrow> int option" where
  "getMinutes tz d = map_option (\<lambda>t. ((t + tz) mod 3600000) div 60000) d"

text \<open>\<^verbatim>\<open>d.setHours(h, m, 0, 0)\<close>: the local day of \<open>d\<close> at \<open>h:m:00.000\<close>.\<close>

definition setHours :: "int \<Rightarrow> date \<Rightarrow> int \<Rightarrow> int \<Rightarrow> date" where
  "setHours tz d h m =
     (case d of None \<Rightarrow> None
      | Some t \<Rightarrow> TimeClip (((t + tz) div dayMs) * dayMs + h * 3600000 + m * 60000 - tz))"

subsection \<open>parseRRule\<close>

text \<open>One piece of the rule: \<^verbatim>\<open>const [k, v] = piece.split('='); if (k && v) map[k.toUpperCase()] = v\<close>.\<close>

definition parse_piece :: "(string \<rightharpoonup> string) \<Rightarrow> string \<Rightarrow> (string \<rightharpoonup> string)" where
  "parse_piece m piece =
     (case split_on (CHR ''='') piece of
        k # v # _ \<Rightarrow> if k \<noteq> [] \<and> v \<noteq> [] then m(toUpperCase k \<mapsto> v) else m
      | _ \<Rightarrow> m)"

definition parseRRule :: "string \<Rightarrow> (string \<rightharpoonup> string)" where
  "parseRRule rrule = foldl parse_piece Map.empty (split_on (CHR '';'') rrule)"

subsection \<open>genWeeklyInstances\<close>

record series =
  s_id :: string
  s_client_id :: string
  s_rrule :: string
  s_dtstart :: int
  s_duration_min :: int
  s_until_at :: "int option"
  s_count :: "int option"

record gen_instance =
  original_instance_at :: int
  start_at :: int
  end_at :: int

datatype error = TypeError

definition weekdayMap :: "string list" where
  "weekdayMap = [''SU'', ''MO'', ''TU'', ''WE'', ''TH'', ''FR'', ''SA'']"

text \<open>\<^verbatim>\<open>Number(x || 0) || null\<close> on a nullable integer column.\<close>

definition number_or_null :: "int option \<Rightarrow> int option" where
  "number_or_null x = (case x of None \<Rightarrow> None | Some n \<Rightarrow> if n = 0 then None else Some n)"

text \<open>The body of the loop for the day starting at \<open>c\<close> (the valid time value of
  \<^verbatim>\<open>cursor\<close>): the instance pushed on that day, if any.\<close>

definition gen_day ::
  "int \<Rightarrow> series \<Rightarrow> string list \<Rightarrow> jsnum \<Rightarrow> int option \<Rightarrow> int option \<Rightarrow> int option \<Rightarrow>
   int \<Rightarrow> int \<Rightarrow> int \<Rightarrow> int \<Rightarrow> gen_instance option" where
  "gen_day tz ser byday interval until count startMinutes weekStart weekEnd c produced =
     (case getDay tz (Some c) of None \<Rightarrow> None | Some wdi \<Rightarrow>
     (let wd = weekdayMap ! wdi in
     (case setHours tz (newDate (s_dtstart ser)) 0 0 of None \<Rightarrow> None | Some d0 \<Rightarrow>
     (let weeksFromStart = (c - d0) div (7 * dayMs) in
      if weeksFromStart \<ge> 0 \<and> rem_is_zero weeksFromStart interval \<and> wd \<in> set byday then
        (case startMinutes of None \<Rightarrow> None | Some sm \<Rightarrow>
        (case setHours tz (Some c) (sm div 60) (sm mod 60) of None \<Rightarrow> None | Some s \<Rightarrow>
        (let e = s + (if s_duration_min ser = 0 then 50 else s_duration_min ser) * 60 * 1000 in
         if s \<ge> weekStart \<and> s \<le> weekEnd \<and> s \<ge> s_dtstart ser then
           (if (case until of Some u \<Rightarrow> s > u | None \<Rightarrow> False) then None
            else if (case count of Some n \<Rightarrow> produced \<ge> n | None \<Rightarrow> False) then None
            else Some \<lparr>original_instance_at = s, start_at = s, end_at = e\<rparr>)
         else None)))
      else None))))"

function gen_loop ::
  "int \<Rightarrow> series \<Rightarrow> string list \<Rightarrow> jsnum \<Rightarrow> int option \<Rightarrow> int option \<Rightarrow> int option \<Rightarrow>
   int \<Rightarrow> int \<Rightarrow> date \<Rightarrow> int \<Rightarrow> gen_instance list \<Rightarrow> gen_instance list" where
  "gen_loop tz ser byday interval until count startMinutes weekStart weekEnd cursor produced generated =
     (case cursor of None \<Rightarrow> generated
      | Some c \<Rightarrow>
          if c \<le> weekEnd then
            (case gen_day tz ser byday interval until count startMinutes weekStart weekEnd c produced of
               Some i \<Rightarrow> gen_loop tz ser byday interval until count startMinutes weekStart weekEnd
                           (TimeClip (c + dayMs)) (produced + 1) (generated @ [i])
             | None \<Rightarrow> gen_loop tz ser byday interval until count startMinutes weekStart weekEnd
                           (TimeClip (c + dayMs)) produced generated)
          else generated)"
  by pat_completeness auto
termination
  by (relation "measure (\<lambda>(tz, ser, byday, interval, until, count, startMinutes, weekStart, weekEnd,
                            cursor, produced, generated).
                   case cursor of None \<Rightarrow> 0 | Some c \<Rightarrow> nat (weekEnd - c + dayMs) + 1)")
     (auto simp: TimeClip_def dayMs_def split: if_splits)

declare gen_loop.simps [simp del]

definition genWeeklyInstances ::
  "int \<Rightarrow> (string \<Rightarrow> jsnum) \<Rightarrow> series \<Rightarrow> int \<Rightarrow> int \<Rightarrow> error + gen_instance list" where
  "genWeeklyInstances tz Number ser weekStart weekEnd =
     (let rule = parseRRule (s_rrule ser) in
      if rule ''FREQ'' \<noteq> Some ''WEEKLY'' then Inr []
      else
        (case (case rule ''BYDAY'' of Some v \<Rightarrow> Some v
               | None \<Rightarrow> map_option (\<lambda>i. weekdayMap ! i) (getDay tz (newDate (s_dtstart ser)))) of
           None \<Rightarrow> Inl TypeError
         | Some bydayText \<Rightarrow>
            let byday = split_on (CHR '','') bydayText;
                interval = Math_max (Fin 1)
                             (case rule ''INTERVAL'' of Some v \<Rightarrow> Number v | None \<Rightarrow> Fin 1);
                until = number_or_null (s_until_at ser);
                count = number_or_null (s_count ser);
                dt = newDate (s_dtstart ser);
                startMinutes = (case (getHours tz dt, getMinutes tz dt) of
                                  (Some h, Some m) \<Rightarrow> Some (h * 60 + m) | _ \<Rightarrow> None);
                cursor = setHours tz (newDate weekStart) 0 0
            in Inr (gen_loop tz ser byday interval until count startMinutes weekStart weekEnd
                      cursor 0 [])))"

subsection \<open>The store\<close>

text \<open>The rows of the four tables the two handlers read, with the columns they use.\<close>

record client =
  c_id :: string
  c_name :: string

record appointment =
  a_id :: string
  a_client_id :: string
  a_start_at :: int
  a_end_at :: int
  a_status :: string
  a_recurring_series_id :: "string option"
  a_original_instance_at :: "int option"

record recurring_exception =
  x_id :: string
  x_recurring_series_id :: string
  x_original_instance_at :: int
  x_new_start_at :: "int option"
  x_new_end_at :: "int option"
  x_status :: string

record store =
  clients :: "client list"
  appointments :: "appointment list"
  recurring_series :: "series list"
  recurring_exceptions :: "recurring_exception list"

subsection \<open>Numbers as text\<close>

definition digit_char :: "int \<Rightarrow> char" where
  "digit_char d = char_of (48 + d)"

text \<open>The decimal digits of a number that is not negative.\<close>

function show_digits :: "int \<Rightarrow> string" where
  "show_digits n =
     (if n < 10 then [digit_char n] else show_digits (n div 10) @ [digit_char (n mod 10)])"
  by pat_completeness auto
termination
  by (relation "measure nat") auto

declare show_digits.simps [simp del]

text \<open>\<^verbatim>\<open>String(n)\<close> for an integer \<open>n\<close>.\<close>

definition show_int :: "int \<Rightarrow> string" where
  "show_int i = (if i < 0 then CHR ''-'' # show_digits (- i) else show_digits i)"

subsection \<open>GET /api/schedule/week\<close>

record event =
  e_id :: string
  e_source :: string
  e_clientId :: string
  e_clientName :: string
  e_startAt :: int
  e_endAt :: int
  e_status :: string
  e_recurringSeriesId :: "string option"
  e_originalInstanceAt :: "int option"

datatype http_error = Status400 string | Status500 error

text \<open>The rows of \<^verbatim>\<open>appointments a JOIN clients c ON c.id = a.client_id\<close>, each with
  \<^verbatim>\<open>c.name AS client_name\<close>.\<close>

definition join_clients :: "store \<Rightarrow> appointment list \<Rightarrow> (appointment \<times> string) list" where
  "join_clients st rows =
     concat (map (\<lambda>a. map (\<lambda>c. (a, c_name c)) (filter (\<lambda>c. c_id c = a_client_id a) (clients st))) rows)"

definition select_singles :: "store \<Rightarrow> int \<Rightarrow> int \<Rightarrow> (appointment \<times> string) list" where
  "select_singles st weekStart weekEnd =
     join_clients st (filter (\<lambda>a. weekStart \<le> a_start_at a \<and> a_start_at a \<le> weekEnd) (appointments st))"

definition select_series :: "store \<Rightarrow> int \<Rightarrow> int \<Rightarrow> series list" where
  "select_series st weekStart weekEnd =
     filter (\<lambda>s. s_dtstart s \<le> weekEnd \<and> (case s_until_at s of None \<Rightarrow> True | Some u \<Rightarrow> u \<ge> weekStart))
       (recurring_series st)"

definition single_event :: "appointment \<times> string \<Rightarrow> event" where
  "single_event r =
     \<lparr>e_id = a_id (fst r), e_source = ''single'', e_clientId = a_client_id (fst r),
      e_clientName = snd r, e_startAt = a_start_at (fst r), e_endAt = a_end_at (fst r),
      e_status = a_status (fst r), e_recurringSeriesId = a_recurring_series_id (fst r),
      e_originalInstanceAt = a_original_instance_at (fst r)\<rparr>"

text \<open>\<^verbatim>\<open>new Map(exceptions.map((e) => [e.original_instance_at, e]))\<close>: a later row replaces
  an earlier one with the same key.\<close>

definition mapEx :: "recurring_exception list \<Rightarrow> (int \<rightharpoonup> recurring_exception)" where
  "mapEx exceptions = foldl (\<lambda>m e. m(x_original_instance_at e \<mapsto> e)) Map.empty exceptions"

text \<open>\<^verbatim>\<open>x || y\<close> on a nullable number \<open>x\<close>: null and 0 are falsy.\<close>

definition num_or :: "int option \<Rightarrow> int \<Rightarrow> int" where
  "num_or x y = (case x of None \<Rightarrow> y | Some n \<Rightarrow> if n = 0 then y else n)"

text \<open>The name shown for a series whose client row is missing or has an empty name
  (four CJK characters, as UTF-8).\<close>

definition unknownClientName :: string where
  "unknownClientName =
     map char_of [230, 156, 170, 231, 159, 165, 228, 184, 170, 230, 161, 136 :: nat]"

text \<open>The body of \<^verbatim>\<open>for (const item of generated)\<close>: the event pushed for \<open>item\<close>, if any.\<close>

definition overlay_item ::
  "client option \<Rightarrow> series \<Rightarrow> (int \<rightharpoonup> recurring_exception) \<Rightarrow> gen_instance \<Rightarrow> event option" where
  "overlay_item cl ser m item =
     (let ex = m (original_instance_at item) in
      if (case ex of Some x \<Rightarrow> x_status x = ''Canceled'' | None \<Rightarrow> False) then None
      else Some
        \<lparr>e_id = s_id ser @ '':'' @ show_int (original_instance_at item),
         e_source = ''recurring'',
         e_clientId = s_client_id ser,
         e_clientName = (case cl of Some c \<Rightarrow> if c_name c = [] then unknownClientName else c_name c
                         | None \<Rightarrow> unknownClientName),
         e_startAt = (case ex of Some x \<Rightarrow> num_or (x_new_start_at x) (start_at item)
                      | None \<Rightarrow> start_at item),
         e_endAt = (case ex of Some x \<Rightarrow> num_or (x_new_end_at x) (end_at item)
                    | None \<Rightarrow> end_at item),
         e_status = ''Scheduled'',
         e_recurringSeriesId = Some (s_id ser),
         e_originalInstanceAt = Some (original_instance_at item)\<rparr>)"

definition series_exceptions :: "store \<Rightarrow> series \<Rightarrow> recurring_exception list" where
  "series_exceptions st ser =
     filter (\<lambda>e. x_recurring_series_id e = s_id ser) (recurring_exceptions st)"

text \<open>The events one series contributes: the body of \<^verbatim>\<open>for (const series of seriesRows)\<close>.
  A TypeError thrown by the generator leaves the handler through its \<^verbatim>\<open>catch\<close>.\<close>

definition series_events ::
  "int \<Rightarrow> (string \<Rightarrow> jsnum) \<Rightarrow> store \<Rightarrow> int \<Rightarrow> int \<Rightarrow> series \<Rightarrow> error + event list" where
  "series_events tz Number st weekStart weekEnd ser =
     (let cl = find (\<lambda>c. c_id c = s_client_id ser) (clients st) in
      case genWeeklyInstances tz Number ser weekStart weekEnd of
        Inl err \<Rightarrow> Inl err
      | Inr generated \<Rightarrow>
          Inr (List.map_filter (overlay_item cl ser (mapEx (series_exceptions st ser))) generated))"

fun push_series ::
  "int \<Rightarrow> (string \<Rightarrow> jsnum) \<Rightarrow> store \<Rightarrow> int \<Rightarrow> int \<Rightarrow> series list \<Rightarrow> event list \<Rightarrow> error + event list" where
  "push_series tz Number st weekStart weekEnd [] eventList = Inr eventList"
| "push_series tz Number st weekStart weekEnd (ser # rest) eventList =
     (case series_events tz Number st weekStart weekEnd ser of
        Inl err \<Rightarrow> Inl err
      | Inr evs \<Rightarrow> push_series tz Number st weekStart weekEnd rest (eventList @ evs))"

text \<open>The handler. Its arguments \<open>qStart\<close> and \<open>qEnd\<close> are \<^verbatim>\<open>Number(req.query.weekStart)\<close>
  and \<^verbatim>\<open>Number(req.query.weekEnd)\<close>: \<open>None\<close> is NaN (the parameter is absent or not
  numeric), \<open>Some n\<close> an integral number of milliseconds. \<^verbatim>\<open>Array.prototype.sort\<close> with
  the comparator \<^verbatim>\<open>a.startAt - b.startAt\<close> is a stable sort on \<open>startAt\<close>.\<close>

definition schedule_week ::
  "int \<Rightarrow> (string \<Rightarrow> jsnum) \<Rightarrow> store \<Rightarrow> int option \<Rightarrow> int option \<Rightarrow> http_error + event list" where
  "schedule_week tz Number st qStart qEnd =
     (case (qStart, qEnd) of
        (Some weekStart, Some weekEnd) \<Rightarrow>
          if weekStart = 0 \<or> weekEnd = 0 then Inl (Status400 ''weekStart and weekEnd required'')
          else
            (case push_series tz Number st weekStart weekEnd (select_series st weekStart weekEnd)
                    (map single_event (select_singles st weekStart weekEnd)) of
               Inl err \<Rightarrow> Inl (Status500 err)
             | Inr eventList \<Rightarrow> Inr (sort_key e_startAt eventList))
      | _ \<Rightarrow> Inl (Status400 ''weekStart and weekEnd required''))"

subsection \<open>GET /api/ics\<close>

text \<open>The UTC calendar date of a day number (days since 1 January 1970), as
  \<^verbatim>\<open>getUTCFullYear()\<close>, \<^verbatim>\<open>getUTCMonth() + 1\<close> and \<^verbatim>\<open>getUTCDate()\<close> give it, in the
  proleptic Gregorian calendar.\<close>

definition civil_from_days :: "int \<Rightarrow> int \<times> int \<times> int" where
  "civil_from_days z0 =
     (let z = z0 + 719468;
          era = z div 146097;
          doe = z - era * 146097;
          yoe = (doe - doe div 1460 + doe div 36524 - doe div 146096) div 365;
          y = yoe + era * 400;
          doy = doe - (365 * yoe + yoe div 4 - yoe div 100);
          mp = (5 * doy + 2) div 153;
          d = doy - (153 * mp + 2) div 5 + 1;
          m = (if mp < 10 then mp + 3 else mp - 9)
      in (if m \<le> 2 then y + 1 else y, m, d))"

text \<open>\<^verbatim>\<open>String(n).padStart(2, '0')\<close>.\<close>

definition pad :: "int \<Rightarrow> string" where
  "pad n = (let t = show_int n in if length t < 2 then replicate (2 - length t) (CHR ''0'') @ t else t)"

definition formatIcsDate :: "int \<Rightarrow> string" where
  "formatIcsDate epochMs =
     (case newDate epochMs of
        None \<Rightarrow> ''NaNNaNNaNTNaNNaNNaNZ''
      | Some t \<Rightarrow>
          (case civil_from_days (t div dayMs) of (y, m, d) \<Rightarrow>
             show_int y @ pad m @ pad d @ ''T'' @ pad ((t mod dayMs) div 3600000)
               @ pad ((t mod 3600000) div 60000) @ pad ((t mod 60000) div 1000) @ ''Z''))"

definition select_ics_events :: "store \<Rightarrow> (appointment \<times> string) list" where
  "select_ics_events st =
     join_clients st (filter (\<lambda>a. a_status a \<noteq> ''Canceled'') (appointments st))"

text \<open>\<^verbatim>\<open>String(e.client_name).replace(/[,;\\]/g, '')\<close>.\<close>

definition strip_reserved :: "string \<Rightarrow> string" where
  "strip_reserved name = filter (\<lambda>ch. ch \<noteq> CHR '','' \<and> ch \<noteq> CHR '';'' \<and> ch \<noteq> CHR 0x5C) name"

text \<open>The line pushed by \<^verbatim>\<open>if (e.recurring_series_id) { ... if (series?.rrule) ... }\<close>, if any.\<close>

definition rrule_lines :: "store \<Rightarrow> appointment \<Rightarrow> string list" where
  "rrule_lines st a =
     (case a_recurring_series_id a of
        None \<Rightarrow> []
      | Some sid \<Rightarrow>
          if sid = [] then []
          else (case find (\<lambda>s. s_id s = sid) (recurring_series st) of
                  None \<Rightarrow> []
                | Some ser \<Rightarrow> if s_rrule ser = [] then [] else [''RRULE:'' @ s_rrule ser]))"

text \<open>The lines pushed for one fetched row; \<open>now\<close> is the reading of the clock.\<close>

definition vevent :: "int \<Rightarrow> store \<Rightarrow> appointment \<times> string \<Rightarrow> string list" where
  "vevent now st r =
     [''BEGIN:VEVENT'',
      ''UID:'' @ a_id (fst r) @ ''@local'',
      ''DTSTAMP:'' @ formatIcsDate now,
      ''DTSTART:'' @ formatIcsDate (a_start_at (fst r)),
      ''DTEND:'' @ formatIcsDate (a_end_at (fst r)),
      ''SUMMARY:'' @ strip_reserved (snd r)]
     @ (if a_status (fst r) = ''Canceled'' then [''STATUS:CANCELLED''] else [])
     @ rrule_lines st (fst r)
     @ [''END:VEVENT'']"

definition ics_lines :: "int \<Rightarrow> store \<Rightarrow> string list" where
  "ics_lines now st =
     [''BEGIN:VCALENDAR'', ''VERSION:2.0'', ''PRODID:-//Counseling CRM//CN'', ''CALSCALE:GREGORIAN'']
     @ concat (map (vevent now st) (select_ics_events st))
     @ [''END:VCALENDAR'']"

definition CRLF :: string where
  "CRLF = [CHR 0x0D, CHR 0x0A]"

text \<open>\<^verbatim>\<open>lines.join('\r\n')\<close> followed by a final line break.\<close>

fun join_lines :: "string list \<Rightarrow> string" where
  "join_lines [] = []"
| "join_lines [l] = l"
| "join_lines (l # ls) = l @ CRLF @ join_lines ls"

definition ics :: "int \<Rightarrow> store \<Rightarrow> string" where
  "ics now st = join_lines (ics_lines now st) @ CRLF"

subsection \<open>Notions of the statements\<close>

text \<open>A number less than or equal to 1: NaN is not a number, minus infinity is.\<close>

fun le_one :: "jsnum \<Rightarrow> bool" where
  "le_one NaN = False"
| "le_one NegInf = True"
| "le_one (Fin q) = (q \<le> 1)"
| "le_one PosInf = False"




text \<open>A line of the calendar that begins with the given text.\<close>

definition starts_with :: "string \<Rightarrow> string \<Rightarrow> bool" where
  "starts_with p l = (take (length p) l = p)"

text \<open>The exception rows of a series for one generated instance, in the order the
  handler fetches them.\<close>

definition matching_exceptions :: "store \<Rightarrow> series \<Rightarrow> int \<Rightarrow> recurring_exception list" where
  "matching_exceptions st ser t =
     filter (\<lambda>e. x_recurring_series_id e = s_id ser \<and> x_original_instance_at e = t)
       (recurring_exceptions st)"

text \<open>A text without a line break: it holds neither a carriage return nor a line feed.\<close>

definition single_line :: "string \<Rightarrow> bool" where
  "single_line t \<longleftrightarrow> CHR 0x0D \<notin> set t \<and> CHR 0x0A \<notin> set t"

text \<open>The content lines of a calendar document: the pieces between the CR LF sequences,
  as \<^verbatim>\<open>text.split('\r\n')\<close> gives them. A document that ends with CR LF has an empty
  last piece.\<close>

fun document_lines :: "string \<Rightarrow> string list" where
  "document_lines [] = [[]]"
| "document_lines [x] = [[x]]"
| "document_lines (x # y # zs) =
     (if x = CHR 0x0D \<and> y = CHR 0x0A then [] # document_lines zs
      else (case document_lines (y # zs) of [] \<Rightarrow> [[x]] | p # ps \<Rightarrow> (x # p) # ps))"

subsection \<open>Example data\<close>

text \<open>The series of the concrete scenario: \<open>dtstart\<close> is Wednesday 2025-10-08 at 10:00,
  read in UTC.\<close>

definition wed_series :: series where
  "wed_series =
     \<lparr>s_id = ''series'', s_client_id = ''client'', s_rrule = ''FREQ=WEEKLY;BYDAY=WE'',
      s_dtstart = 1759917600000, s_duration_min = 50, s_until_at = None, s_count = None\<rparr>"

text \<open>A conversion for the examples: it agrees with \<^verbatim>\<open>Number\<close> on the texts used there
  (an optional minus sign and decimal digits) and is NaN elsewhere.\<close>

fun decimal_value :: "int \<Rightarrow> string \<Rightarrow> int option" where
  "decimal_value acc [] = Some acc"
| "decimal_value acc (ch # rest) =
     (if 48 \<le> (of_char ch :: int) \<and> (of_char ch :: int) \<le> 57
      then decimal_value (10 * acc + ((of_char ch :: int) - 48)) rest else None)"

definition decimalNumber :: "string \<Rightarrow> jsnum" where
  "decimalNumber t =
     (case t of
        [] \<Rightarrow> Fin 0
      | ch # rest \<Rightarrow>
          if ch = CHR ''-'' \<and> rest \<noteq> []
          then (case decimal_value 0 rest of Some n \<Rightarrow> Fin (- of_int n) | None \<Rightarrow> NaN)
          else (case decimal_value 0 t of Some n \<Rightarrow> Fin (of_int n) | None \<Rightarrow> NaN))"

text \<open>Stores around the scenario series. The exception rows replace the instance of
  Wednesday 15 October 2025, 10:00.\<close>

definition ann :: client where
  "ann = \<lparr>c_id = ''client'', c_name = ''Ann''\<rparr>"

definition moved_exception :: recurring_exception where
  "moved_exception =
     \<lparr>x_id = ''x1'', x_recurring_series_id = ''series'', x_original_instance_at = 1760522400000,
      x_new_start_at = Some 1760623200000, x_new_end_at = Some 1760626200000, x_status = ''Moved''\<rparr>"

definition zero_exception :: recurring_exception where
  "zero_exception =
     \<lparr>x_id = ''x2'', x_recurring_series_id = ''series'', x_original_instance_at = 1760522400000,
      x_new_start_at = Some 0, x_new_end_at = Some 3000000, x_status = ''Moved''\<rparr>"

definition odd_exception :: recurring_exception where
  "odd_exception =
     \<lparr>x_id = ''x3'', x_recurring_series_id = ''series'', x_original_instance_at = 1760522400000,
      x_new_start_at = Some 0, x_new_end_at = None, x_status = ''Postponed''\<rparr>"

definition store_with :: "recurring_exception list \<Rightarrow> store" where
  "store_with exs =
     \<lparr>clients = [ann], appointments = [], recurring_series = [wed_series],
      recurring_exceptions = exs\<rparr>"

definition canceled_exception :: recurring_exception where
  "canceled_exception =
     \<lparr>x_id = ''x4'', x_recurring_series_id = ''series'', x_original_instance_at = 1760522400000,
      x_new_start_at = None, x_new_end_at = None, x_status = ''Canceled''\<rparr>"

text \<open>A second row for the same instance, moving it to Friday 17 October 2025.\<close>

definition later_exception :: recurring_exception where
  "later_exception =
     \<lparr>x_id = ''x5'', x_recurring_series_id = ''series'', x_original_instance_at = 1760522400000,
      x_new_start_at = Some 1760709600000, x_new_end_at = Some 1760712600000, x_status = ''Moved''\<rparr>"

text \<open>The generated instance of that Wednesday, and the event built from it with the
  given start and end.\<close>

definition wed_instance :: gen_instance where
  "wed_instance =
     \<lparr>original_instance_at = 1760522400000, start_at = 1760522400000, end_at = 1760525400000\<rparr>"

definition wed_event :: "int \<Rightarrow> int \<Rightarrow> event" where
  "wed_event s e =
     \<lparr>e_id = ''series:1760522400000'', e_source = ''recurring'', e_clientId = ''client'',
      e_clientName = ''Ann'', e_startAt = s, e_endAt = e, e_status = ''Scheduled'',
      e_recurringSeriesId = Some ''series'', e_originalInstanceAt = Some 1760522400000\<rparr>"

text \<open>Stores in which an appointment row of the series carries the instance of that
  Wednesday as its \<open>original_instance_at\<close>; and the event of that row.\<close>

definition slot_row :: appointment where
  "slot_row =
     \<lparr>a_id = ''row'', a_client_id = ''client'', a_start_at = 1760522400000,
      a_end_at = 1760525400000, a_status = ''Scheduled'', a_recurring_series_id = Some ''series'',
      a_original_instance_at = Some 1760522400000\<rparr>"

definition row_store :: "recurring_exception list \<Rightarrow> store" where
  "row_store exs =
     \<lparr>clients = [ann], appointments = [slot_row], recurring_series = [wed_series],
      recurring_exceptions = exs\<rparr>"

definition row_event :: event where
  "row_event =
     \<lparr>e_id = ''row'', e_source = ''single'', e_clientId = ''client'', e_clientName = ''Ann'',
      e_startAt = 1760522400000, e_endAt = 1760525400000, e_status = ''Scheduled'',
      e_recurringSeriesId = Some ''series'', e_originalInstanceAt = Some 1760522400000\<rparr>"

text \<open>A store with two one-off appointments, listed late one first: one at the very
  time of the Wednesday instance, one on the Monday before.\<close>

definition wed_single :: appointment where
  "wed_single =
     \<lparr>a_id = ''wed'', a_client_id = ''client'', a_start_at = 1760522400000,
      a_end_at = 1760525400000, a_status = ''Scheduled'', a_recurring_series_id = None,
      a_original_instance_at = None\<rparr>"

definition mon_single :: appointment where
  "mon_single =
     \<lparr>a_id = ''mon'', a_client_id = ''client'', a_start_at = 1760346000000,
      a_end_at = 1760349000000, a_status = ''Scheduled'', a_recurring_series_id = None,
      a_original_instance_at = None\<rparr>"

definition tie_store :: store where
  "tie_store =
     \<lparr>clients = [ann], appointments = [wed_single, mon_single], recurring_series = [wed_series],
      recurring_exceptions = []\<rparr>"

text \<open>The anchor appointment of the scenario series, at \<open>dtstart\<close>, alone in a store
  with its series; and the event of the series for that slot.\<close>

definition anchor :: appointment where
  "anchor =
     \<lparr>a_id = ''anchor'', a_client_id = ''client'', a_start_at = 1759917600000,
      a_end_at = 1759920600000, a_status = ''Scheduled'', a_recurring_series_id = Some ''series'',
      a_original_instance_at = None\<rparr>"



text \<open>A store for the calendar export: the anchor, a canceled appointment and a one-off
  one; the series carries the given rule.\<close>

definition canceled_single :: appointment where
  "canceled_single =
     \<lparr>a_id = ''gone'', a_client_id = ''client'', a_start_at = 1760346000000,
      a_end_at = 1760349000000, a_status = ''Canceled'', a_recurring_series_id = None,
      a_original_instance_at = None\<rparr>"

definition ics_store :: "string \<Rightarrow> store" where
  "ics_store rule =
     \<lparr>clients = [ann], appointments = [anchor, canceled_single, wed_single],
      recurring_series = [wed_series\<lparr>s_rrule := rule\<rparr>], recurring_exceptions = []\<rparr>"

text \<open>A store with one appointment, whose client has a name of four lines.\<close>

definition ghost_name :: client where
  "ghost_name =
     \<lparr>c_id = ''client'',
      c_name = ''Ann'' @ CRLF @ ''END:VEVENT'' @ CRLF @ ''BEGIN:VEVENT'' @ CRLF @ ''UID:ghost@local''\<rparr>"

definition ghost_store :: store where
  "ghost_store =
     \<lparr>clients = [ghost_name], appointments = [wed_single], recurring_series = [],
      recurring_exceptions = []\<rparr>"

section \<open>Properties of the instance generator\<close>

subsection \<open>The loop, step by step\<close>

lemma gen_loop_None [simp]:
  "gen_loop tz ser byday interval until count startMinutes weekStart weekEnd None produced generated
     = generated"
  by (simp add: gen_loop.simps)

lemma gen_loop_stop:
  "\<not> c \<le> weekEnd \<Longrightarrow>
   gen_loop tz ser byday interval until count startMinutes weekStart weekEnd (Some c) produced generated
     = generated"
  by (simp add: gen_loop.simps)

lemma gen_loop_push:
  "c \<le> weekEnd \<Longrightarrow>
   gen_day tz ser byday interval until count startMinutes weekStart weekEnd c produced = Some i \<Longrightarrow>
   gen_loop tz ser byday interval until count startMinutes weekStart weekEnd (Some c) produced generated =
   gen_loop tz ser byday interval until count startMinutes weekStart weekEnd
     (TimeClip (c + dayMs)) (produced + 1) (generated @ [i])"
  by (subst gen_loop.simps) simp

lemma gen_loop_skip:
  "c \<le> weekEnd \<Longrightarrow>
   gen_day tz ser byday interval until count startMinutes weekStart weekEnd c produced = None \<Longrightarrow>
   gen_loop tz ser byday interval until count startMinutes weekStart weekEnd (Some c) produced generated =
   gen_loop tz ser byday interval until count startMinutes weekStart weekEnd
     (TimeClip (c + dayMs)) produced generated"
  by (subst gen_loop.simps) simp

text \<open>What the guards of the loop body say about a pushed instance.\<close>

lemma gen_day_Some:
  assumes "gen_day tz ser byday interval until count startMinutes weekStart weekEnd c produced = Some i"
  shows "weekStart \<le> start_at i \<and> start_at i \<le> weekEnd \<and> s_dtstart ser \<le> start_at i
         \<and> original_instance_at i = start_at i
         \<and> end_at i = start_at i + (if s_duration_min ser = 0 then 50 else s_duration_min ser) * 60 * 1000
         \<and> (\<exists>sm. startMinutes = Some sm \<and> setHours tz (Some c) (sm div 60) (sm mod 60) = Some (start_at i))
         \<and> (case until of Some u \<Rightarrow> start_at i \<le> u | None \<Rightarrow> True)
         \<and> (case count of Some n \<Rightarrow> produced < n | None \<Rightarrow> True)"
  using assms
  by (auto simp: gen_day_def Let_def split: option.splits if_splits)

text \<open>Every element of the result was already in \<open>generated\<close> or was pushed by the body.\<close>

lemma gen_loop_set:
  "i \<in> set (gen_loop tz ser byday interval until count startMinutes weekStart weekEnd cursor produced generated)
   \<Longrightarrow> i \<in> set generated \<or>
       (\<exists>c p. gen_day tz ser byday interval until count startMinutes weekStart weekEnd c p = Some i)"
proof (induction tz ser byday interval until count startMinutes weekStart weekEnd cursor produced generated
       rule: gen_loop.induct)
  case (1 tz ser byday interval until count startMinutes weekStart weekEnd cursor produced generated)
  show ?case
  proof (cases cursor)
    case None
    with "1.prems" show ?thesis by simp
  next
    case (Some c)
    show ?thesis
    proof (cases "c \<le> weekEnd")
      case False
      with Some "1.prems" show ?thesis by (simp add: gen_loop_stop)
    next
      case True
      show ?thesis
      proof (cases "gen_day tz ser byday interval until count startMinutes weekStart weekEnd c produced")
        case None
        with Some True "1.prems" "1.IH"(1) show ?thesis by (simp add: gen_loop_skip)
      next
        case (Some j)
        with \<open>cursor = Some c\<close> True "1.prems" "1.IH"(2)[of c j] show ?thesis
          by (auto simp: gen_loop_push)
      qed
    qed
  qed
qed

lemma genWeeklyInstances_Inr:
  assumes "genWeeklyInstances tz Number ser weekStart weekEnd = Inr xs"
  shows "xs = [] \<or> (\<exists>byday interval startMinutes cursor.
           xs = gen_loop tz ser byday interval (number_or_null (s_until_at ser))
                  (number_or_null (s_count ser)) startMinutes weekStart weekEnd cursor 0 [])"
proof (cases "parseRRule (s_rrule ser) ''FREQ'' \<noteq> Some ''WEEKLY''")
  case True
  with assms show ?thesis by (simp add: genWeeklyInstances_def)
next
  case False
  with assms show ?thesis
    unfolding genWeeklyInstances_def Let_def
    by (simp split: option.splits) blast+
qed

lemma genWeeklyInstances_set:
  assumes "genWeeklyInstances tz Number ser weekStart weekEnd = Inr xs" "i \<in> set xs"
  shows "\<exists>byday interval startMinutes c p.
           gen_day tz ser byday interval (number_or_null (s_until_at ser)) (number_or_null (s_count ser))
             startMinutes weekStart weekEnd c p = Some i"
proof -
  from genWeeklyInstances_Inr[OF assms(1)] assms(2)
  obtain byday interval startMinutes cursor where
    "i \<in> set (gen_loop tz ser byday interval (number_or_null (s_until_at ser))
                  (number_or_null (s_count ser)) startMinutes weekStart weekEnd cursor 0 [])"
    by auto
  from gen_loop_set[OF this]
  have "\<exists>c p. gen_day tz ser byday interval (number_or_null (s_until_at ser))
           (number_or_null (s_count ser)) startMinutes weekStart weekEnd c p = Some i"
    by simp
  then show ?thesis by blast
qed

text \<open>The scenario series in the week of 13 to 19 October 2025, in UTC.\<close>

lemma wed_series_week:
  "genWeeklyInstances 0 decimalNumber wed_series 1760313600000 1760918340000 =
     Inr [\<lparr>original_instance_at = 1760522400000, start_at = 1760522400000, end_at = 1760525400000\<rparr>]"
  by code_simp

subsection \<open>Window containment\<close>

text \<open>
  Claim C5. For every series and every window with \<open>weekStart \<le> weekEnd\<close>, every instance
  the generator returns (before any exception is overlaid) starts inside the window,
  \<open>weekStart \<le> start_at \<le> weekEnd\<close>, and not before the series begins,
  \<open>start_at \<ge> dtstart\<close>.
\<close>

theorem window_containment:
  assumes "weekStart \<le> weekEnd"
    and "genWeeklyInstances tz Number ser weekStart weekEnd = Inr xs"
    and "i \<in> set xs"
  shows "weekStart \<le> start_at i \<and> start_at i \<le> weekEnd \<and> s_dtstart ser \<le> start_at i"
proof -
  from genWeeklyInstances_set[OF assms(2,3)] obtain byday interval startMinutes c p where
    "gen_day tz ser byday interval (number_or_null (s_until_at ser)) (number_or_null (s_count ser))
             startMinutes weekStart weekEnd c p = Some i" by blast
  from gen_day_Some[OF this] show ?thesis by simp
qed

theorem window_containment_witness:
  "(1760313600000 :: int) \<le> 1760918340000
   \<and> genWeeklyInstances 0 decimalNumber wed_series 1760313600000 1760918340000 =
       Inr [\<lparr>original_instance_at = 1760522400000, start_at = 1760522400000, end_at = 1760525400000\<rparr>]
   \<and> 1760313600000 \<le> start_at \<lparr>original_instance_at = 1760522400000, start_at = 1760522400000, end_at = 1760525400000\<rparr>
   \<and> start_at \<lparr>original_instance_at = 1760522400000, start_at = 1760522400000, end_at = 1760525400000\<rparr> \<le> 1760918340000
   \<and> s_dtstart wed_series \<le> start_at \<lparr>original_instance_at = 1760522400000, start_at = 1760522400000, end_at = 1760525400000\<rparr>"
proof -
  have h: "(1760313600000 :: int) \<le> 1760918340000" by simp
  have m: "\<lparr>original_instance_at = 1760522400000, start_at = 1760522400000, end_at = 1760525400000\<rparr>
             \<in> set [\<lparr>original_instance_at = 1760522400000, start_at = 1760522400000, end_at = 1760525400000\<rparr>]"
    by simp
  from window_containment[OF h wed_series_week m] h wed_series_week show ?thesis by simp
qed

subsection \<open>The concrete scenario\<close>

lemma gen_loop_Some:
  "gen_loop tz ser byday interval until count startMinutes weekStart weekEnd (Some c) produced generated =
     (if c \<le> weekEnd then
        (case gen_day tz ser byday interval until count startMinutes weekStart weekEnd c produced of
           Some i \<Rightarrow> gen_loop tz ser byday interval until count startMinutes weekStart weekEnd
                       (TimeClip (c + dayMs)) (produced + 1) (generated @ [i])
         | None \<Rightarrow> gen_loop tz ser byday interval until count startMinutes weekStart weekEnd
                       (TimeClip (c + dayMs)) produced generated)
      else generated)"
  by (subst gen_loop.simps) simp

lemma wed_rule_FREQ: "parseRRule ''FREQ=WEEKLY;BYDAY=WE'' ''FREQ'' = Some ''WEEKLY''"
  by code_simp

lemma wed_rule_BYDAY: "parseRRule ''FREQ=WEEKLY;BYDAY=WE'' ''BYDAY'' = Some ''WE''"
  by code_simp

lemma wed_rule_INTERVAL: "parseRRule ''FREQ=WEEKLY;BYDAY=WE'' ''INTERVAL'' = None"
  by code_simp

text \<open>Calendar fields of the time value that reads \<open>x\<close> on the local clock.\<close>

lemma TimeClip_local:
  "\<bar>tz\<bar> \<le> dayMs \<Longrightarrow> \<bar>x\<bar> \<le> 8639999913600000 \<Longrightarrow> TimeClip (x - tz) = Some (x - tz)"
  by (simp add: TimeClip_def maxTime_def dayMs_def)

lemma getDay_local: "getDay tz (Some (x - tz)) = Some (nat (((x div dayMs) + 4) mod 7))"
  by (simp add: getDay_def)

lemma setHours_local:
  "setHours tz (Some (x - tz)) h m = TimeClip ((x div dayMs) * dayMs + h * 3600000 + m * 60000 - tz)"
  by (simp add: setHours_def)

lemma getHours_local: "getHours tz (Some (x - tz)) = Some ((x mod dayMs) div 3600000)"
  by (simp add: getHours_def)

lemma getMinutes_local: "getMinutes tz (Some (x - tz)) = Some ((x mod 3600000) div 60000)"
  by (simp add: getMinutes_def)

text \<open>
  Claim C3. The series with \<open>dtstart\<close> = 2025-10-08T10:00 local time (a Wednesday), rule
  \<^verbatim>\<open>FREQ=WEEKLY;BYDAY=WE\<close>, a duration of 50 minutes and no exceptions, generated for the
  window from 2025-10-13T00:00 to 2025-10-19T23:59, gives exactly one instance: it starts
  at 2025-10-15T10:00, ends at 10:50, and its original instance time is its start.
  The local reading \<open>x\<close> of a clock \<open>tz\<close> east of Greenwich is the time value \<open>x - tz\<close>;
  the statement holds for every offset of at most a day.
\<close>

theorem scenario_week:
  assumes "\<bar>tz\<bar> \<le> dayMs"
  shows "genWeeklyInstances tz Number (wed_series\<lparr>s_dtstart := 1759917600000 - tz\<rparr>)
           (1760313600000 - tz) (1760918340000 - tz) =
         Inr [\<lparr>original_instance_at = 1760522400000 - tz, start_at = 1760522400000 - tz,
               end_at = 1760525400000 - tz\<rparr>]"
proof -
  have "gen_loop tz (wed_series\<lparr>s_dtstart := 1759917600000 - tz\<rparr>) [''WE''] (Fin 1) None None
          (Some 600) (1760313600000 - tz) (1760918340000 - tz) (Some (1760313600000 - tz)) 0 [] =
        [\<lparr>original_instance_at = 1760522400000 - tz, start_at = 1760522400000 - tz,
          end_at = 1760525400000 - tz\<rparr>]"
    using assms
    by (simp add: gen_loop_Some gen_day_def wed_series_def dayMs_def weekdayMap_def Let_def
          getDay_local[unfolded dayMs_def] setHours_local[unfolded dayMs_def]
          TimeClip_local[unfolded dayMs_def] newDate_def)
  with assms show ?thesis
    by (simp add: genWeeklyInstances_def wed_series_def wed_rule_FREQ wed_rule_BYDAY
          wed_rule_INTERVAL newDate_def getDay_local[unfolded dayMs_def]
          setHours_local[unfolded dayMs_def] getHours_local[unfolded dayMs_def]
          getMinutes_local TimeClip_local[unfolded dayMs_def] number_or_null_def Let_def dayMs_def)
qed

theorem scenario_week_witness:
  "\<bar>0 :: int\<bar> \<le> dayMs \<and>
   genWeeklyInstances 0 decimalNumber (wed_series\<lparr>s_dtstart := 1759917600000\<rparr>)
           1760313600000 1760918340000 =
         Inr [\<lparr>original_instance_at = 1760522400000, start_at = 1760522400000,
               end_at = 1760525400000\<rparr>]"
proof -
  have h: "\<bar>0 :: int\<bar> \<le> dayMs" by (simp add: dayMs_def)
  from scenario_week[OF h, of decimalNumber] h show ?thesis by simp
qed

subsection \<open>Rules that generate nothing\<close>

lemma split_on_nonempty [simp]: "split_on sep s \<noteq> []"
  by (induction s) (auto split: list.splits)

lemma split_on_no_sep: "sep \<notin> set s \<Longrightarrow> split_on sep s = [s]"
  by (induction s) auto

lemma split_on_append: "split_on sep (a @ sep # b) = split_on sep a @ split_on sep b"
proof (induction a)
  case Nil
  show ?case by simp
next
  case (Cons x a)
  obtain p ps where ps: "split_on sep a = p # ps"
    using split_on_nonempty[of sep a] by (cases "split_on sep a") auto
  with Cons show ?case by simp
qed

text \<open>A key is bound to \<open>v\<close> only by a piece that reads \<open>k=v\<close> with \<open>k\<close> the key in
  some mix of cases.\<close>

lemma parse_piece_Some:
  assumes "parse_piece m piece key = Some v"
  shows "m key = Some v \<or>
         (\<exists>k rest. split_on (CHR ''='') piece = k # v # rest \<and> k \<noteq> [] \<and> v \<noteq> [] \<and> toUpperCase k = key)"
  using assms
  by (auto simp: parse_piece_def split: list.splits if_splits)

lemma foldl_parse_piece_Some:
  "foldl parse_piece m ps key = Some v \<Longrightarrow>
   m key = Some v \<or>
   (\<exists>piece \<in> set ps. \<exists>k rest. split_on (CHR ''='') piece = k # v # rest \<and> k \<noteq> [] \<and> v \<noteq> []
        \<and> toUpperCase k = key)"
proof (induction ps arbitrary: m)
  case Nil
  then show ?case by simp
next
  case (Cons p ps)
  from Cons.prems have "foldl parse_piece (parse_piece m p) ps key = Some v" by simp
  from Cons.IH[OF this] show ?case
  proof
    assume "parse_piece m p key = Some v"
    from parse_piece_Some[OF this] show ?thesis by auto
  next
    assume "\<exists>piece\<in>set ps. \<exists>k rest. split_on (CHR ''='') piece = k # v # rest \<and> k \<noteq> []
              \<and> v \<noteq> [] \<and> toUpperCase k = key"
    then show ?thesis by auto
  qed
qed

lemma parseRRule_Some:
  assumes "parseRRule rrule key = Some v"
  shows "\<exists>piece \<in> set (split_on (CHR '';'') rrule). \<exists>k rest.
           split_on (CHR ''='') piece = k # v # rest \<and> k \<noteq> [] \<and> v \<noteq> [] \<and> toUpperCase k = key"
  using foldl_parse_piece_Some[of Map.empty "split_on (CHR '';'') rrule" key v] assms
  by (simp add: parseRRule_def)

lemma not_weekly:
  "parseRRule (s_rrule ser) ''FREQ'' \<noteq> Some ''WEEKLY'' \<Longrightarrow>
   genWeeklyInstances tz Number ser weekStart weekEnd = Inr []"
  by (simp add: genWeeklyInstances_def)

text \<open>
  Claim C6. The generator returns the empty list, and raises nothing, for every series
  and window,
  \<^item> when the parsed rule has no \<open>FREQ\<close> or a \<open>FREQ\<close> other than \<open>WEEKLY\<close>;
  \<^item> in particular when no piece of the rule text binds \<open>FREQ\<close> to \<open>WEEKLY\<close>;
  \<^item> and when every piece of the rule text is malformed (has no \<open>=\<close>) or has a key
    other than \<open>FREQ\<close>, \<open>BYDAY\<close> and \<open>INTERVAL\<close>.
\<close>

theorem unusable_rule_generates_nothing:
  "(parseRRule (s_rrule ser) ''FREQ'' \<noteq> Some ''WEEKLY'' \<longrightarrow>
      genWeeklyInstances tz Number ser weekStart weekEnd = Inr [])
   \<and> ((\<forall>piece \<in> set (split_on (CHR '';'') (s_rrule ser)). \<forall>k v rest.
         split_on (CHR ''='') piece = k # v # rest \<and> toUpperCase k = ''FREQ'' \<longrightarrow> v \<noteq> ''WEEKLY'') \<longrightarrow>
      genWeeklyInstances tz Number ser weekStart weekEnd = Inr [])
   \<and> ((\<forall>piece \<in> set (split_on (CHR '';'') (s_rrule ser)).
         CHR ''='' \<notin> set piece \<or>
         toUpperCase (hd (split_on (CHR ''='') piece)) \<notin> {''FREQ'', ''BYDAY'', ''INTERVAL''}) \<longrightarrow>
      genWeeklyInstances tz Number ser weekStart weekEnd = Inr [])"
proof (intro conjI impI)
  assume "parseRRule (s_rrule ser) ''FREQ'' \<noteq> Some ''WEEKLY''"
  then show "genWeeklyInstances tz Number ser weekStart weekEnd = Inr []" by (rule not_weekly)
next
  assume a: "\<forall>piece \<in> set (split_on (CHR '';'') (s_rrule ser)). \<forall>k v rest.
         split_on (CHR ''='') piece = k # v # rest \<and> toUpperCase k = ''FREQ'' \<longrightarrow> v \<noteq> ''WEEKLY''"
  have "parseRRule (s_rrule ser) ''FREQ'' \<noteq> Some ''WEEKLY''"
  proof
    assume "parseRRule (s_rrule ser) ''FREQ'' = Some ''WEEKLY''"
    from parseRRule_Some[OF this] a show False by blast
  qed
  then show "genWeeklyInstances tz Number ser weekStart weekEnd = Inr []" by (rule not_weekly)
next
  assume a: "\<forall>piece \<in> set (split_on (CHR '';'') (s_rrule ser)).
         CHR ''='' \<notin> set piece \<or>
         toUpperCase (hd (split_on (CHR ''='') piece)) \<notin> {''FREQ'', ''BYDAY'', ''INTERVAL''}"
  have "parseRRule (s_rrule ser) ''FREQ'' \<noteq> Some ''WEEKLY''"
  proof
    assume "parseRRule (s_rrule ser) ''FREQ'' = Some ''WEEKLY''"
    from parseRRule_Some[OF this] obtain piece k rest where
      p: "piece \<in> set (split_on (CHR '';'') (s_rrule ser))"
      and s: "split_on (CHR ''='') piece = k # ''WEEKLY'' # rest" and k: "toUpperCase k = ''FREQ''"
      by blast
    from a p have "CHR ''='' \<notin> set piece \<or>
         toUpperCase (hd (split_on (CHR ''='') piece)) \<notin> {''FREQ'', ''BYDAY'', ''INTERVAL''}" by blast
    then show False
    proof
      assume "CHR ''='' \<notin> set piece"
      from split_on_no_sep[OF this] s show False by simp
    next
      assume "toUpperCase (hd (split_on (CHR ''='') piece)) \<notin> {''FREQ'', ''BYDAY'', ''INTERVAL''}"
      with s k show False by simp
    qed
  qed
  then show "genWeeklyInstances tz Number ser weekStart weekEnd = Inr []" by (rule not_weekly)
qed

theorem unusable_rule_generates_nothing_witness:
  "parseRRule (s_rrule (wed_series\<lparr>s_rrule := ''FREQ=DAILY;BYDAY=WE''\<rparr>)) ''FREQ'' = Some ''DAILY''
   \<and> genWeeklyInstances 0 decimalNumber (wed_series\<lparr>s_rrule := ''FREQ=DAILY;BYDAY=WE''\<rparr>)
        1760313600000 1760918340000 = Inr []
   \<and> split_on (CHR '';'') (s_rrule (wed_series\<lparr>s_rrule := ''freq=weekly;FREQ''\<rparr>))
        = [''freq=weekly'', ''FREQ'']
   \<and> split_on (CHR ''='') ''freq=weekly'' = [''freq'', ''weekly'']
   \<and> split_on (CHR ''='') ''FREQ'' = [''FREQ'']
   \<and> genWeeklyInstances 0 decimalNumber (wed_series\<lparr>s_rrule := ''freq=weekly;FREQ''\<rparr>)
        1760313600000 1760918340000 = Inr []
   \<and> split_on (CHR '';'') (s_rrule (wed_series\<lparr>s_rrule := ''WEEKLY;COLOR=RED''\<rparr>))
        = [''WEEKLY'', ''COLOR=RED'']
   \<and> CHR ''='' \<notin> set ''WEEKLY''
   \<and> toUpperCase (hd (split_on (CHR ''='') ''COLOR=RED'')) = ''COLOR''
   \<and> genWeeklyInstances 0 decimalNumber (wed_series\<lparr>s_rrule := ''WEEKLY;COLOR=RED''\<rparr>)
        1760313600000 1760918340000 = Inr []"
proof -
  have d: "parseRRule (s_rrule (wed_series\<lparr>s_rrule := ''FREQ=DAILY;BYDAY=WE''\<rparr>)) ''FREQ''
             = Some ''DAILY''"
    by code_simp
  then have h1: "parseRRule (s_rrule (wed_series\<lparr>s_rrule := ''FREQ=DAILY;BYDAY=WE''\<rparr>)) ''FREQ''
              \<noteq> Some ''WEEKLY''"
    by simp
  have p2: "split_on (CHR '';'') (s_rrule (wed_series\<lparr>s_rrule := ''freq=weekly;FREQ''\<rparr>))
        = [''freq=weekly'', ''FREQ'']"
    by code_simp
  have k2: "split_on (CHR ''='') ''freq=weekly'' = [''freq'', ''weekly'']"
    "split_on (CHR ''='') ''FREQ'' = [''FREQ'']"
    by code_simp+
  have h2: "\<forall>piece \<in> set (split_on (CHR '';'') (s_rrule (wed_series\<lparr>s_rrule := ''freq=weekly;FREQ''\<rparr>))).
        \<forall>k v rest. split_on (CHR ''='') piece = k # v # rest \<and> toUpperCase k = ''FREQ'' \<longrightarrow> v \<noteq> ''WEEKLY''"
    unfolding p2 by (simp add: k2)
  have p3: "split_on (CHR '';'') (s_rrule (wed_series\<lparr>s_rrule := ''WEEKLY;COLOR=RED''\<rparr>))
        = [''WEEKLY'', ''COLOR=RED'']"
    by code_simp
  have k3: "CHR ''='' \<notin> set ''WEEKLY''" "toUpperCase (hd (split_on (CHR ''='') ''COLOR=RED'')) = ''COLOR''"
    by code_simp+
  have h3: "\<forall>piece \<in> set (split_on (CHR '';'') (s_rrule (wed_series\<lparr>s_rrule := ''WEEKLY;COLOR=RED''\<rparr>))).
        CHR ''='' \<notin> set piece \<or>
        toUpperCase (hd (split_on (CHR ''='') piece)) \<notin> {''FREQ'', ''BYDAY'', ''INTERVAL''}"
    unfolding p3 using k3 by simp
  from h1 h2 h3
    unusable_rule_generates_nothing[of "wed_series\<lparr>s_rrule := ''FREQ=DAILY;BYDAY=WE''\<rparr>"
      0 decimalNumber 1760313600000 1760918340000]
    unusable_rule_generates_nothing[of "wed_series\<lparr>s_rrule := ''freq=weekly;FREQ''\<rparr>"
      0 decimalNumber 1760313600000 1760918340000]
    unusable_rule_generates_nothing[of "wed_series\<lparr>s_rrule := ''WEEKLY;COLOR=RED''\<rparr>"
      0 decimalNumber 1760313600000 1760918340000]
  have g: "genWeeklyInstances 0 decimalNumber (wed_series\<lparr>s_rrule := ''FREQ=DAILY;BYDAY=WE''\<rparr>)
        1760313600000 1760918340000 = Inr []"
    "genWeeklyInstances 0 decimalNumber (wed_series\<lparr>s_rrule := ''freq=weekly;FREQ''\<rparr>)
        1760313600000 1760918340000 = Inr []"
    "genWeeklyInstances 0 decimalNumber (wed_series\<lparr>s_rrule := ''WEEKLY;COLOR=RED''\<rparr>)
        1760313600000 1760918340000 = Inr []"
    by blast+
  from d p2 k2 p3 k3 g show ?thesis by (intro conjI)
qed

subsection \<open>INTERVAL at most 1\<close>

lemma Math_max_le_one: "le_one n \<Longrightarrow> Math_max (Fin 1) n = Fin 1"
  by (cases n) (auto simp: max_def)

text \<open>The loop reads the series for \<open>dtstart\<close> and the duration only.\<close>

lemma gen_day_rrule [simp]:
  "gen_day tz (ser\<lparr>s_rrule := r\<rparr>) byday interval until count startMinutes weekStart weekEnd c p =
   gen_day tz ser byday interval until count startMinutes weekStart weekEnd c p"
  by (simp add: gen_day_def Let_def cong: option.case_cong if_cong)

lemma gen_loop_rrule [simp]:
  "gen_loop tz (ser\<lparr>s_rrule := r\<rparr>) byday interval until count startMinutes weekStart weekEnd cursor p g =
   gen_loop tz ser byday interval until count startMinutes weekStart weekEnd cursor p g"
proof (induction tz ser byday interval until count startMinutes weekStart weekEnd cursor p g
       rule: gen_loop.induct)
  case (1 tz ser byday interval until count startMinutes weekStart weekEnd cursor produced generated)
  show ?case
  proof (cases cursor)
    case None
    then show ?thesis by simp
  next
    case (Some c)
    show ?thesis
    proof (cases "c \<le> weekEnd")
      case False
      with Some show ?thesis by (simp add: gen_loop_stop)
    next
      case True
      show ?thesis
      proof (cases "gen_day tz ser byday interval until count startMinutes weekStart weekEnd c produced")
        case None
        with Some True "1.IH"(1) show ?thesis by (simp add: gen_loop_skip)
      next
        case (Some j)
        with \<open>cursor = Some c\<close> True "1.IH"(2)[of c j] show ?thesis
          by (simp add: gen_loop_push)
      qed
    qed
  qed
qed

text \<open>
  Claim C9. When the \<open>INTERVAL\<close> of the rule converts to a number less than or equal to 1
  (0 and negative numbers included), the generator returns what it returns for the same
  series under any rule with the same \<open>FREQ\<close> and \<open>BYDAY\<close> whose \<open>INTERVAL\<close> is 1, written
  out or by default: neither nothing nor an error in place of it.
\<close>

theorem interval_at_most_one:
  assumes "parseRRule (s_rrule ser) ''INTERVAL'' = Some v"
    and "le_one (Number v)"
    and "parseRRule r' ''FREQ'' = parseRRule (s_rrule ser) ''FREQ''"
    and "parseRRule r' ''BYDAY'' = parseRRule (s_rrule ser) ''BYDAY''"
    and "parseRRule r' ''INTERVAL'' = None \<or>
         (\<exists>v'. parseRRule r' ''INTERVAL'' = Some v' \<and> Number v' = Fin 1)"
  shows "genWeeklyInstances tz Number ser weekStart weekEnd =
         genWeeklyInstances tz Number (ser\<lparr>s_rrule := r'\<rparr>) weekStart weekEnd"
proof -
  have i: "Math_max (Fin 1) (Number v) = Fin 1"
    using assms(2) by (rule Math_max_le_one)
  have i': "Math_max (Fin 1) (case parseRRule r' ''INTERVAL'' of Some v \<Rightarrow> Number v | None \<Rightarrow> Fin 1)
              = Fin 1"
    using assms(5) by auto
  show ?thesis
    unfolding genWeeklyInstances_def Let_def
    by (simp add: assms(1,3,4) i i' cong: option.case_cong)
qed

lemma zero_rule_INTERVAL: "parseRRule ''FREQ=WEEKLY;BYDAY=WE;INTERVAL=0'' ''INTERVAL'' = Some ''0''"
  by code_simp

lemma zero_rule_FREQ: "parseRRule ''FREQ=WEEKLY;BYDAY=WE;INTERVAL=0'' ''FREQ'' = Some ''WEEKLY''"
  by code_simp

lemma zero_rule_BYDAY: "parseRRule ''FREQ=WEEKLY;BYDAY=WE;INTERVAL=0'' ''BYDAY'' = Some ''WE''"
  by code_simp

lemma decimalNumber_0: "decimalNumber ''0'' = Fin 0"
  by code_simp

theorem interval_at_most_one_witness:
  "parseRRule (s_rrule (wed_series\<lparr>s_rrule := ''FREQ=WEEKLY;BYDAY=WE;INTERVAL=0''\<rparr>)) ''INTERVAL''
     = Some ''0''
   \<and> le_one (decimalNumber ''0'')
   \<and> parseRRule ''FREQ=WEEKLY;BYDAY=WE'' ''INTERVAL'' = None
   \<and> genWeeklyInstances 0 decimalNumber (wed_series\<lparr>s_rrule := ''FREQ=WEEKLY;BYDAY=WE;INTERVAL=0''\<rparr>)
        1760313600000 1760918340000 =
      Inr [\<lparr>original_instance_at = 1760522400000, start_at = 1760522400000, end_at = 1760525400000\<rparr>]"
proof -
  let ?ser = "wed_series\<lparr>s_rrule := ''FREQ=WEEKLY;BYDAY=WE;INTERVAL=0''\<rparr>"
  have h1: "parseRRule (s_rrule ?ser) ''INTERVAL'' = Some ''0''"
    by (simp add: zero_rule_INTERVAL)
  have h2: "le_one (decimalNumber ''0'')"
    by (simp add: decimalNumber_0)
  have h3: "parseRRule ''FREQ=WEEKLY;BYDAY=WE'' ''FREQ'' = parseRRule (s_rrule ?ser) ''FREQ''"
    by (simp add: zero_rule_FREQ wed_rule_FREQ)
  have h4: "parseRRule ''FREQ=WEEKLY;BYDAY=WE'' ''BYDAY'' = parseRRule (s_rrule ?ser) ''BYDAY''"
    by (simp add: zero_rule_BYDAY wed_rule_BYDAY)
  have h5: "parseRRule ''FREQ=WEEKLY;BYDAY=WE'' ''INTERVAL'' = None \<or>
         (\<exists>v'. parseRRule ''FREQ=WEEKLY;BYDAY=WE'' ''INTERVAL'' = Some v' \<and> decimalNumber v' = Fin 1)"
    by (simp add: wed_rule_INTERVAL)
  have same: "?ser\<lparr>s_rrule := ''FREQ=WEEKLY;BYDAY=WE''\<rparr> = wed_series"
    by (simp add: wed_series_def)
  from interval_at_most_one[OF h1 h2 h3 h4 h5, of 0 1760313600000 1760918340000]
  have "genWeeklyInstances 0 decimalNumber ?ser 1760313600000 1760918340000 =
        genWeeklyInstances 0 decimalNumber wed_series 1760313600000 1760918340000"
    by (simp only: same)
  with h1 h2 wed_rule_INTERVAL wed_series_week show ?thesis by simp
qed

section \<open>Properties of the window query\<close>

subsection \<open>The overlay of exceptions\<close>

lemma set_map_filter_iff:
  "y \<in> set (List.map_filter f xs) \<longleftrightarrow> (\<exists>x \<in> set xs. f x = Some y)"
  by (induction xs) (auto split: option.splits)

lemma overlay_item_None:
  "overlay_item cl ser m item = None \<longleftrightarrow>
     (\<exists>x. m (original_instance_at item) = Some x \<and> x_status x = ''Canceled'')"
  by (auto simp: overlay_item_def Let_def split: option.splits)

lemma overlay_item_Some:
  assumes "overlay_item cl ser m item = Some ev"
  shows "e_id ev = s_id ser @ '':'' @ show_int (original_instance_at item)
       \<and> e_source ev = ''recurring''
       \<and> e_status ev = ''Scheduled''
       \<and> e_recurringSeriesId ev = Some (s_id ser)
       \<and> e_originalInstanceAt ev = Some (original_instance_at item)
       \<and> e_startAt ev = (case m (original_instance_at item) of
                           None \<Rightarrow> start_at item
                         | Some x \<Rightarrow> num_or (x_new_start_at x) (start_at item))
       \<and> e_endAt ev = (case m (original_instance_at item) of
                           None \<Rightarrow> end_at item
                         | Some x \<Rightarrow> num_or (x_new_end_at x) (end_at item))"
  using assms
  by (auto simp: overlay_item_def Let_def split: option.splits if_splits)

lemma series_events_Inr:
  assumes "series_events tz Number st weekStart weekEnd ser = Inr evs"
  shows "\<exists>generated. genWeeklyInstances tz Number ser weekStart weekEnd = Inr generated \<and>
           evs = List.map_filter (overlay_item (find (\<lambda>c. c_id c = s_client_id ser) (clients st)) ser
                                    (mapEx (series_exceptions st ser))) generated"
  using assms by (auto simp: series_events_def Let_def split: sum.splits)

text \<open>An instance whose effective exception is canceled leaves no event behind.\<close>

lemma canceled_absent:
  assumes "series_events tz Number st weekStart weekEnd ser = Inr evs"
    and "mapEx (series_exceptions st ser) t = Some x" and "x_status x = ''Canceled''"
    and "ev \<in> set evs"
  shows "e_originalInstanceAt ev \<noteq> Some t"
proof
  assume t: "e_originalInstanceAt ev = Some t"
  let ?ov = "overlay_item (find (\<lambda>c. c_id c = s_client_id ser) (clients st)) ser
               (mapEx (series_exceptions st ser))"
  from series_events_Inr[OF assms(1)] obtain generated where
    "evs = List.map_filter ?ov generated" by blast
  with assms(4) have "\<exists>j \<in> set generated. ?ov j = Some ev"
    by (simp add: set_map_filter_iff)
  then obtain j where j: "j \<in> set generated" "?ov j = Some ev" by blast
  from overlay_item_Some[OF j(2)] t have "original_instance_at j = t" by simp
  with assms(2,3) have "?ov j = None" by (simp add: overlay_item_None)
  with j(2) show False by simp
qed

text \<open>An instance whose effective exception is not canceled, or that has none, leaves
  the event the loop body builds.\<close>

lemma kept_present:
  assumes "series_events tz Number st weekStart weekEnd ser = Inr evs"
    and "genWeeklyInstances tz Number ser weekStart weekEnd = Inr generated"
    and "item \<in> set generated"
    and "\<not> (\<exists>x. mapEx (series_exceptions st ser) (original_instance_at item) = Some x
               \<and> x_status x = ''Canceled'')"
  shows "\<exists>ev \<in> set evs.
           overlay_item (find (\<lambda>c. c_id c = s_client_id ser) (clients st)) ser
             (mapEx (series_exceptions st ser)) item = Some ev"
proof -
  let ?ov = "overlay_item (find (\<lambda>c. c_id c = s_client_id ser) (clients st)) ser
               (mapEx (series_exceptions st ser))"
  from series_events_Inr[OF assms(1)] assms(2)
  have evs: "evs = List.map_filter ?ov generated" by simp
  from assms(4) have "?ov item \<noteq> None" by (simp add: overlay_item_None)
  then obtain ev where ev: "?ov item = Some ev" by blast
  with assms(3) have "ev \<in> set evs" unfolding evs set_map_filter_iff by blast
  with ev show ?thesis by blast
qed

text \<open>The Map built from the fetched rows returns, for a key, the last row with that
  key.\<close>

lemma mapEx_last_row:
  "mapEx exs t =
     (if filter (\<lambda>e. x_original_instance_at e = t) exs = [] then None
      else Some (last (filter (\<lambda>e. x_original_instance_at e = t) exs)))"
proof (induction exs rule: rev_induct)
  case Nil
  show ?case by (simp add: mapEx_def)
next
  case (snoc x exs)
  have "mapEx (exs @ [x]) = (mapEx exs)(x_original_instance_at x \<mapsto> x)"
    by (simp add: mapEx_def)
  with snoc show ?case by simp
qed

lemma mapEx_matching:
  "mapEx (series_exceptions st ser) t =
     (if matching_exceptions st ser t = [] then None
      else Some (last (matching_exceptions st ser t)))"
proof -
  have "filter (\<lambda>e. x_original_instance_at e = t) (series_exceptions st ser) = matching_exceptions st ser t"
    by (simp add: series_exceptions_def matching_exceptions_def)
  then show ?thesis by (simp add: mapEx_last_row)
qed


text \<open>
  Claim C10. In the overlay of the window query, a generated instance is dropped exactly
  when its exception (the row the lookup by \<open>original_instance_at\<close> returns) has the
  status \<open>Canceled\<close>, spelled so. An exception of any other status, inside or outside
  \<open>Moved\<close> and \<open>Canceled\<close>, is applied as a move: the event starts at \<open>new_start_at\<close>
  and ends at \<open>new_end_at\<close>, and each falls back to the time of the generated instance
  when the column is null or 0.
\<close>

theorem overlay_drops_only_canceled:
  assumes "series_events tz Number st weekStart weekEnd ser = Inr evs"
    and "genWeeklyInstances tz Number ser weekStart weekEnd = Inr generated"
    and "item \<in> set generated"
  shows "((\<forall>ev \<in> set evs. e_originalInstanceAt ev \<noteq> Some (original_instance_at item)) \<longleftrightarrow>
           (\<exists>x. mapEx (series_exceptions st ser) (original_instance_at item) = Some x
                 \<and> x_status x = ''Canceled''))
       \<and> (\<forall>x. mapEx (series_exceptions st ser) (original_instance_at item) = Some x
               \<and> x_status x \<noteq> ''Canceled'' \<longrightarrow>
             (\<exists>ev \<in> set evs.
                e_id ev = s_id ser @ '':'' @ show_int (original_instance_at item)
              \<and> e_originalInstanceAt ev = Some (original_instance_at item)
              \<and> e_status ev = ''Scheduled''
              \<and> e_startAt ev = (case x_new_start_at x of None \<Rightarrow> start_at item
                                | Some n \<Rightarrow> if n = 0 then start_at item else n)
              \<and> e_endAt ev = (case x_new_end_at x of None \<Rightarrow> end_at item
                              | Some n \<Rightarrow> if n = 0 then end_at item else n)))"
proof (intro conjI allI impI iffI)
  assume h: "\<forall>ev \<in> set evs. e_originalInstanceAt ev \<noteq> Some (original_instance_at item)"
  show "\<exists>x. mapEx (series_exceptions st ser) (original_instance_at item) = Some x
             \<and> x_status x = ''Canceled''"
  proof (rule ccontr)
    assume n: "\<not> (\<exists>x. mapEx (series_exceptions st ser) (original_instance_at item) = Some x
                     \<and> x_status x = ''Canceled'')"
    from kept_present[OF assms n] obtain ev where
      "ev \<in> set evs"
      "overlay_item (find (\<lambda>c. c_id c = s_client_id ser) (clients st)) ser
         (mapEx (series_exceptions st ser)) item = Some ev"
      by blast
    with h overlay_item_Some[of _ ser _ item ev] show False by blast
  qed
next
  assume "\<exists>x. mapEx (series_exceptions st ser) (original_instance_at item) = Some x
              \<and> x_status x = ''Canceled''"
  then obtain x where x: "mapEx (series_exceptions st ser) (original_instance_at item) = Some x"
    "x_status x = ''Canceled''" by blast
  show "\<forall>ev \<in> set evs. e_originalInstanceAt ev \<noteq> Some (original_instance_at item)"
    using canceled_absent[OF assms(1) x] by blast
next
  fix x
  assume x: "mapEx (series_exceptions st ser) (original_instance_at item) = Some x
             \<and> x_status x \<noteq> ''Canceled''"
  then have n: "\<not> (\<exists>x. mapEx (series_exceptions st ser) (original_instance_at item) = Some x
                     \<and> x_status x = ''Canceled'')"
    by auto
  from kept_present[OF assms n] obtain ev where ev: "ev \<in> set evs"
    "overlay_item (find (\<lambda>c. c_id c = s_client_id ser) (clients st)) ser
       (mapEx (series_exceptions st ser)) item = Some ev"
    by blast
  from overlay_item_Some[OF ev(2)] x
  have "e_id ev = s_id ser @ '':'' @ show_int (original_instance_at item)
        \<and> e_originalInstanceAt ev = Some (original_instance_at item)
        \<and> e_status ev = ''Scheduled''
        \<and> e_startAt ev = (case x_new_start_at x of None \<Rightarrow> start_at item
                          | Some n \<Rightarrow> if n = 0 then start_at item else n)
        \<and> e_endAt ev = (case x_new_end_at x of None \<Rightarrow> end_at item
                        | Some n \<Rightarrow> if n = 0 then end_at item else n)"
    by (simp add: num_or_def)
  with ev(1) show "\<exists>ev \<in> set evs.
                e_id ev = s_id ser @ '':'' @ show_int (original_instance_at item)
              \<and> e_originalInstanceAt ev = Some (original_instance_at item)
              \<and> e_status ev = ''Scheduled''
              \<and> e_startAt ev = (case x_new_start_at x of None \<Rightarrow> start_at item
                                | Some n \<Rightarrow> if n = 0 then start_at item else n)
              \<and> e_endAt ev = (case x_new_end_at x of None \<Rightarrow> end_at item
                              | Some n \<Rightarrow> if n = 0 then end_at item else n)"
    by blast
qed

lemma wed_instance_week:
  "genWeeklyInstances 0 decimalNumber wed_series 1760313600000 1760918340000 = Inr [wed_instance]"
  by (simp add: wed_series_week wed_instance_def)

lemma odd_exception_events:
  "series_events 0 decimalNumber (store_with [odd_exception]) 1760313600000 1760918340000 wed_series
     = Inr [wed_event 1760522400000 1760525400000]"
  by code_simp

lemma odd_exception_lookup:
  "mapEx (series_exceptions (store_with [odd_exception]) wed_series) (original_instance_at wed_instance)
     = Some odd_exception"
  by code_simp

theorem overlay_drops_only_canceled_witness:
  "series_events 0 decimalNumber (store_with [odd_exception]) 1760313600000 1760918340000 wed_series
     = Inr [wed_event 1760522400000 1760525400000]
   \<and> genWeeklyInstances 0 decimalNumber wed_series 1760313600000 1760918340000 = Inr [wed_instance]
   \<and> wed_instance \<in> set [wed_instance]
   \<and> mapEx (series_exceptions (store_with [odd_exception]) wed_series) (original_instance_at wed_instance)
       = Some odd_exception
   \<and> x_status odd_exception = ''Postponed''
   \<and> x_new_start_at odd_exception = Some 0
   \<and> x_new_end_at odd_exception = None
   \<and> (\<exists>ev \<in> set [wed_event 1760522400000 1760525400000].
         e_id ev = ''series:1760522400000'' \<and> e_startAt ev = start_at wed_instance
         \<and> e_endAt ev = end_at wed_instance)"
proof -
  have m: "wed_instance \<in> set [wed_instance]" by simp
  have x: "mapEx (series_exceptions (store_with [odd_exception]) wed_series)
             (original_instance_at wed_instance) = Some odd_exception
           \<and> x_status odd_exception \<noteq> ''Canceled''"
    by (simp add: odd_exception_lookup) (simp add: odd_exception_def)
  from overlay_drops_only_canceled[OF odd_exception_events wed_instance_week m] x
  have "\<exists>ev \<in> set [wed_event 1760522400000 1760525400000].
          e_id ev = s_id wed_series @ '':'' @ show_int (original_instance_at wed_instance)
        \<and> e_originalInstanceAt ev = Some (original_instance_at wed_instance)
        \<and> e_status ev = ''Scheduled''
        \<and> e_startAt ev = (case x_new_start_at odd_exception of None \<Rightarrow> start_at wed_instance
                          | Some n \<Rightarrow> if n = 0 then start_at wed_instance else n)
        \<and> e_endAt ev = (case x_new_end_at odd_exception of None \<Rightarrow> end_at wed_instance
                        | Some n \<Rightarrow> if n = 0 then end_at wed_instance else n)"
    by blast
  then have "\<exists>ev \<in> set [wed_event 1760522400000 1760525400000].
         e_id ev = ''series:1760522400000'' \<and> e_startAt ev = start_at wed_instance
         \<and> e_endAt ev = end_at wed_instance"
    by (simp add: odd_exception_def wed_event_def)
  with odd_exception_events wed_instance_week odd_exception_lookup show ?thesis
    by (simp add: odd_exception_def)
qed

subsection \<open>Order of the result\<close>

text \<open>The loop over the series appends what each series contributes, in order.\<close>

lemma push_series_Inr:
  "push_series tz Number st weekStart weekEnd sers eventList = Inr evs \<Longrightarrow>
   \<exists>per. list_all2 (\<lambda>ser es. series_events tz Number st weekStart weekEnd ser = Inr es) sers per
         \<and> evs = eventList @ concat per"
proof (induction sers arbitrary: eventList)
  case Nil
  then show ?case by simp
next
  case (Cons ser rest)
  from Cons.prems obtain es where es: "series_events tz Number st weekStart weekEnd ser = Inr es"
    and r: "push_series tz Number st weekStart weekEnd rest (eventList @ es) = Inr evs"
    by (auto split: sum.splits)
  from Cons.IH[OF r] obtain per where
    per: "list_all2 (\<lambda>ser es. series_events tz Number st weekStart weekEnd ser = Inr es) rest per"
    and evs: "evs = (eventList @ es) @ concat per"
    by blast
  from es per have
    "list_all2 (\<lambda>ser es. series_events tz Number st weekStart weekEnd ser = Inr es) (ser # rest) (es # per)"
    by simp
  moreover from evs have "evs = eventList @ concat (es # per)" by simp
  ultimately show ?case by blast
qed

lemma schedule_week_Inr:
  assumes "schedule_week tz Number st qStart qEnd = Inr evs"
  shows "\<exists>weekStart weekEnd eventList. qStart = Some weekStart \<and> qEnd = Some weekEnd
           \<and> weekStart \<noteq> 0 \<and> weekEnd \<noteq> 0
           \<and> push_series tz Number st weekStart weekEnd (select_series st weekStart weekEnd)
                (map single_event (select_singles st weekStart weekEnd)) = Inr eventList
           \<and> evs = sort_key e_startAt eventList"
  using assms
  by (auto simp: schedule_week_def split: option.splits if_splits sum.splits)

text \<open>
  Claim C7. The event list of a window query is sorted ascending by \<open>startAt\<close>, and the
  events with one and the same \<open>startAt\<close> keep their encounter order: first the one-off
  and anchor appointments in the order of the fetch, then the recurring expansions,
  series by series in store order.
\<close>

theorem result_sorted_stable:
  assumes "schedule_week tz Number st (Some weekStart) (Some weekEnd) = Inr evs"
  shows "sorted (map e_startAt evs)
       \<and> (\<exists>per. list_all2 (\<lambda>ser es. series_events tz Number st weekStart weekEnd ser = Inr es)
                   (select_series st weekStart weekEnd) per
              \<and> (\<forall>t. filter (\<lambda>e. e_startAt e = t) evs =
                      filter (\<lambda>e. e_startAt e = t)
                        (map single_event (select_singles st weekStart weekEnd) @ concat per)))"
proof -
  from schedule_week_Inr[OF assms] obtain eventList where
    p: "push_series tz Number st weekStart weekEnd (select_series st weekStart weekEnd)
          (map single_event (select_singles st weekStart weekEnd)) = Inr eventList"
    and evs: "evs = sort_key e_startAt eventList"
    by auto
  from push_series_Inr[OF p] obtain per where
    per: "list_all2 (\<lambda>ser es. series_events tz Number st weekStart weekEnd ser = Inr es)
            (select_series st weekStart weekEnd) per"
    and el: "eventList = map single_event (select_singles st weekStart weekEnd) @ concat per"
    by blast
  have "sorted (map e_startAt evs)" unfolding evs by (rule sorted_sort_key)
  moreover have "\<forall>t. filter (\<lambda>e. e_startAt e = t) evs =
                      filter (\<lambda>e. e_startAt e = t)
                        (map single_event (select_singles st weekStart weekEnd) @ concat per)"
    unfolding evs el by (simp only: sort_key_stable) simp
  ultimately show ?thesis using per by blast
qed

lemma tie_store_week:
  "schedule_week 0 decimalNumber tie_store (Some 1760313600000) (Some 1760918340000) =
     Inr [single_event (mon_single, ''Ann''), single_event (wed_single, ''Ann''),
          wed_event 1760522400000 1760525400000]"
  by code_simp

theorem result_sorted_stable_witness:
  "schedule_week 0 decimalNumber tie_store (Some 1760313600000) (Some 1760918340000) =
     Inr [single_event (mon_single, ''Ann''), single_event (wed_single, ''Ann''),
          wed_event 1760522400000 1760525400000]
   \<and> map single_event (select_singles tie_store 1760313600000 1760918340000) =
       [single_event (wed_single, ''Ann''), single_event (mon_single, ''Ann'')]
   \<and> map e_startAt [single_event (mon_single, ''Ann''), single_event (wed_single, ''Ann''),
          wed_event 1760522400000 1760525400000] = [1760346000000, 1760522400000, 1760522400000]
   \<and> sorted (map e_startAt [single_event (mon_single, ''Ann''), single_event (wed_single, ''Ann''),
          wed_event 1760522400000 1760525400000])"
proof -
  have s: "map single_event (select_singles tie_store 1760313600000 1760918340000) =
       [single_event (wed_single, ''Ann''), single_event (mon_single, ''Ann'')]"
    by code_simp
  have t: "map e_startAt [single_event (mon_single, ''Ann''), single_event (wed_single, ''Ann''),
          wed_event 1760522400000 1760525400000] = [1760346000000, 1760522400000, 1760522400000]"
    by (simp add: single_event_def wed_event_def mon_single_def wed_single_def)
  from result_sorted_stable[OF tie_store_week]
  have "sorted (map e_startAt [single_event (mon_single, ''Ann''), single_event (wed_single, ''Ann''),
          wed_event 1760522400000 1760525400000])"
    by blast
  with tie_store_week s t show ?thesis by blast
qed

subsection \<open>Validation of the window\<close>

text \<open>The generator throws only when the rule is weekly without \<open>BYDAY\<close> and \<open>dtstart\<close>
  is no valid time value.\<close>

lemma genWeeklyInstances_Inl:
  assumes "genWeeklyInstances tz Number ser weekStart weekEnd = Inl err"
  shows "err = TypeError \<and> parseRRule (s_rrule ser) ''BYDAY'' = None \<and> \<bar>s_dtstart ser\<bar> > maxTime"
  using assms
  by (auto simp: genWeeklyInstances_def Let_def getDay_def newDate_def TimeClip_def
           split: if_splits option.splits)

lemma genWeeklyInstances_inverted:
  assumes "weekEnd < weekStart" and "genWeeklyInstances tz Number ser weekStart weekEnd = Inr xs"
  shows "xs = []"
proof (cases xs)
  case Nil
  then show ?thesis .
next
  case (Cons i rest)
  then have "i \<in> set xs" by simp
  from genWeeklyInstances_set[OF assms(2) this] obtain byday interval startMinutes c p where
    "gen_day tz ser byday interval (number_or_null (s_until_at ser)) (number_or_null (s_count ser))
       startMinutes weekStart weekEnd c p = Some i"
    by blast
  from gen_day_Some[OF this] assms(1) show ?thesis by simp
qed

lemma series_events_inverted:
  assumes "weekEnd < weekStart"
  shows "series_events tz Number st weekStart weekEnd ser = Inr []
       \<or> (series_events tz Number st weekStart weekEnd ser = Inl TypeError
          \<and> \<bar>s_dtstart ser\<bar> > maxTime)"
proof (cases "genWeeklyInstances tz Number ser weekStart weekEnd")
  case (Inl err)
  with genWeeklyInstances_Inl[OF Inl] show ?thesis by (simp add: series_events_def)
next
  case (Inr xs)
  with genWeeklyInstances_inverted[OF assms Inr] show ?thesis by (simp add: series_events_def)
qed

lemma push_series_inverted:
  assumes "weekEnd < weekStart"
  shows "push_series tz Number st weekStart weekEnd sers eventList = Inr eventList
       \<or> (push_series tz Number st weekStart weekEnd sers eventList = Inl TypeError
          \<and> (\<exists>ser \<in> set sers. \<bar>s_dtstart ser\<bar> > maxTime))"
proof (induction sers)
  case Nil
  show ?case by simp
next
  case (Cons ser rest)
  from series_events_inverted[OF assms, of tz Number st ser] Cons show ?case by auto
qed

lemma select_singles_inverted:
  "weekEnd < weekStart \<Longrightarrow> select_singles st weekStart weekEnd = []"
  by (auto simp: select_singles_def join_clients_def filter_empty_conv)

lemma schedule_week_bad:
  "qStart = None \<or> qStart = Some 0 \<or> qEnd = None \<or> qEnd = Some 0 \<Longrightarrow>
   schedule_week tz Number st qStart qEnd = Inl (Status400 ''weekStart and weekEnd required'')"
  by (cases qStart; cases qEnd) (auto simp: schedule_week_def)

lemma schedule_week_good:
  "weekStart \<noteq> 0 \<Longrightarrow> weekEnd \<noteq> 0 \<Longrightarrow>
   schedule_week tz Number st (Some weekStart) (Some weekEnd) =
     (case push_series tz Number st weekStart weekEnd (select_series st weekStart weekEnd)
             (map single_event (select_singles st weekStart weekEnd)) of
        Inl err \<Rightarrow> Inl (Status500 err)
      | Inr eventList \<Rightarrow> Inr (sort_key e_startAt eventList))"
  by (simp add: schedule_week_def)

lemma schedule_week_400:
  assumes "schedule_week tz Number st qStart qEnd = Inl (Status400 msg)"
  shows "msg = ''weekStart and weekEnd required''
         \<and> (qStart = None \<or> qStart = Some 0 \<or> qEnd = None \<or> qEnd = Some 0)"
proof (cases "qStart = None \<or> qStart = Some 0 \<or> qEnd = None \<or> qEnd = Some 0")
  case True
  from schedule_week_bad[OF True, of tz Number st] assms True show ?thesis by simp
next
  case False
  then obtain weekStart weekEnd where q: "qStart = Some weekStart" "qEnd = Some weekEnd"
    "weekStart \<noteq> 0" "weekEnd \<noteq> 0" by (cases qStart; cases qEnd) auto
  from assms show ?thesis
    unfolding q schedule_week_good[OF q(3,4)] by (simp split: sum.splits)
qed

lemma schedule_week_inverted:
  assumes "weekStart \<noteq> 0" "weekEnd \<noteq> 0" "weekEnd < weekStart"
  shows "(schedule_week tz Number st (Some weekStart) (Some weekEnd) = Inr []
            \<or> schedule_week tz Number st (Some weekStart) (Some weekEnd) = Inl (Status500 TypeError))
         \<and> ((\<forall>ser \<in> set (recurring_series st). \<bar>s_dtstart ser\<bar> \<le> maxTime)
              \<longrightarrow> schedule_week tz Number st (Some weekStart) (Some weekEnd) = Inr [])"
proof -
  let ?p = "push_series tz Number st weekStart weekEnd (select_series st weekStart weekEnd) []"
  have sw: "schedule_week tz Number st (Some weekStart) (Some weekEnd) =
     (case ?p of Inl err \<Rightarrow> Inl (Status500 err) | Inr eventList \<Rightarrow> Inr (sort_key e_startAt eventList))"
    by (simp add: schedule_week_good[OF assms(1,2)] select_singles_inverted[OF assms(3)])
  from push_series_inverted[OF assms(3), of tz Number st "select_series st weekStart weekEnd" "[]"]
  have d: "?p = Inr [] \<or> (?p = Inl TypeError
          \<and> (\<exists>ser \<in> set (select_series st weekStart weekEnd). \<bar>s_dtstart ser\<bar> > maxTime))" .
  then have 1: "schedule_week tz Number st (Some weekStart) (Some weekEnd) = Inr []
            \<or> schedule_week tz Number st (Some weekStart) (Some weekEnd) = Inl (Status500 TypeError)"
  proof
    assume "?p = Inr []" then show ?thesis by (simp add: sw)
  next
    assume "?p = Inl TypeError
          \<and> (\<exists>ser \<in> set (select_series st weekStart weekEnd). \<bar>s_dtstart ser\<bar> > maxTime)"
    then show ?thesis by (simp add: sw)
  qed
  have 2: "(\<forall>ser \<in> set (recurring_series st). \<bar>s_dtstart ser\<bar> \<le> maxTime)
              \<longrightarrow> schedule_week tz Number st (Some weekStart) (Some weekEnd) = Inr []"
  proof
    assume v: "\<forall>ser \<in> set (recurring_series st). \<bar>s_dtstart ser\<bar> \<le> maxTime"
    have "\<not> (\<exists>ser \<in> set (select_series st weekStart weekEnd). \<bar>s_dtstart ser\<bar> > maxTime)"
    proof
      assume "\<exists>ser \<in> set (select_series st weekStart weekEnd). \<bar>s_dtstart ser\<bar> > maxTime"
      then obtain ser where "ser \<in> set (recurring_series st)" "\<bar>s_dtstart ser\<bar> > maxTime"
        by (auto simp: select_series_def)
      with v show False by fastforce
    qed
    with d have "?p = Inr []" by blast
    then show "schedule_week tz Number st (Some weekStart) (Some weekEnd) = Inr []"
      by (simp add: sw)
  qed
  from 1 2 show ?thesis by blast
qed


text \<open>
  Claim C2, as amended. A window query is rejected with the request-validation error
  (status 400) exactly when one of its bounds is NaN or 0. A query whose bounds are
  present, numeric, not 0 and inverted is not rejected: it returns the empty event list,
  unless a selected series has a \<open>dtstart\<close> outside the range of Date and makes the
  generator throw, which the handler answers with status 500.
\<close>

theorem window_validation:
  "(schedule_week tz Number st qStart qEnd = Inl (Status400 ''weekStart and weekEnd required'')
      \<longleftrightarrow> qStart = None \<or> qStart = Some 0 \<or> qEnd = None \<or> qEnd = Some 0)
   \<and> (\<forall>msg. schedule_week tz Number st qStart qEnd = Inl (Status400 msg)
          \<longrightarrow> msg = ''weekStart and weekEnd required'')
   \<and> (\<forall>weekStart weekEnd.
         qStart = Some weekStart \<and> qEnd = Some weekEnd \<and> weekStart \<noteq> 0 \<and> weekEnd \<noteq> 0
         \<and> weekEnd < weekStart \<longrightarrow>
           (schedule_week tz Number st qStart qEnd = Inr []
            \<or> schedule_week tz Number st qStart qEnd = Inl (Status500 TypeError))
         \<and> ((\<forall>ser \<in> set (recurring_series st). \<bar>s_dtstart ser\<bar> \<le> maxTime)
              \<longrightarrow> schedule_week tz Number st qStart qEnd = Inr []))"
proof -
  have 1: "schedule_week tz Number st qStart qEnd = Inl (Status400 ''weekStart and weekEnd required'')
      \<longleftrightarrow> qStart = None \<or> qStart = Some 0 \<or> qEnd = None \<or> qEnd = Some 0"
    using schedule_week_bad[of qStart qEnd tz Number st]
      schedule_week_400[of tz Number st qStart qEnd "''weekStart and weekEnd required''"]
    by blast
  have 2: "\<forall>msg. schedule_week tz Number st qStart qEnd = Inl (Status400 msg)
          \<longrightarrow> msg = ''weekStart and weekEnd required''"
    using schedule_week_400[of tz Number st qStart qEnd] by blast
  have 3: "\<forall>weekStart weekEnd.
         qStart = Some weekStart \<and> qEnd = Some weekEnd \<and> weekStart \<noteq> 0 \<and> weekEnd \<noteq> 0
         \<and> weekEnd < weekStart \<longrightarrow>
           (schedule_week tz Number st qStart qEnd = Inr []
            \<or> schedule_week tz Number st qStart qEnd = Inl (Status500 TypeError))
         \<and> ((\<forall>ser \<in> set (recurring_series st). \<bar>s_dtstart ser\<bar> \<le> maxTime)
              \<longrightarrow> schedule_week tz Number st qStart qEnd = Inr [])"
  proof (intro allI impI)
    fix weekStart weekEnd
    assume a: "qStart = Some weekStart \<and> qEnd = Some weekEnd \<and> weekStart \<noteq> 0 \<and> weekEnd \<noteq> 0
         \<and> weekEnd < weekStart"
    then have q: "qStart = Some weekStart" "qEnd = Some weekEnd"
      and n: "weekStart \<noteq> 0" "weekEnd \<noteq> 0" "weekEnd < weekStart" by simp_all
    show "(schedule_week tz Number st qStart qEnd = Inr []
            \<or> schedule_week tz Number st qStart qEnd = Inl (Status500 TypeError))
         \<and> ((\<forall>ser \<in> set (recurring_series st). \<bar>s_dtstart ser\<bar> \<le> maxTime)
              \<longrightarrow> schedule_week tz Number st qStart qEnd = Inr [])"
      unfolding q by (rule schedule_week_inverted[OF n])
  qed
  from 1 2 3 show ?thesis by (intro conjI)
qed

lemma tie_store_dtstart:
  "\<forall>ser \<in> set (recurring_series tie_store). \<bar>s_dtstart ser\<bar> \<le> maxTime"
  by (simp add: tie_store_def wed_series_def maxTime_def)

theorem inverted_window_counterexample:
  "(1760313600000 :: int) < 1760918340000
   \<and> schedule_week 0 decimalNumber tie_store (Some 1760918340000) (Some 1760313600000) = Inr []"
  by code_simp

theorem window_validation_witness:
  "(1760313600000 :: int) < 1760918340000
   \<and> recurring_series tie_store = [wed_series]
   \<and> \<bar>s_dtstart wed_series\<bar> \<le> maxTime
   \<and> schedule_week 0 decimalNumber tie_store (Some 1760918340000) (Some 1760313600000) = Inr []
   \<and> schedule_week 0 decimalNumber tie_store None (Some 1760313600000)
        = Inl (Status400 ''weekStart and weekEnd required'')
   \<and> schedule_week 0 decimalNumber tie_store (Some 1760313600000) (Some 0)
        = Inl (Status400 ''weekStart and weekEnd required'')"
proof -
  have r: "recurring_series tie_store = [wed_series]"
    by (simp add: tie_store_def)
  have d: "\<bar>s_dtstart wed_series\<bar> \<le> maxTime"
    by (simp add: wed_series_def maxTime_def)
  note w = window_validation[of 0 decimalNumber tie_store "Some 1760918340000" "Some 1760313600000"]
  from w have "(Some (1760918340000 :: int) = Some 1760918340000 \<and> Some (1760313600000 :: int) = Some 1760313600000
         \<and> (1760918340000 :: int) \<noteq> 0 \<and> (1760313600000 :: int) \<noteq> 0
         \<and> (1760313600000 :: int) < 1760918340000) \<longrightarrow>
         ((\<forall>ser \<in> set (recurring_series tie_store). \<bar>s_dtstart ser\<bar> \<le> maxTime)
              \<longrightarrow> schedule_week 0 decimalNumber tie_store (Some 1760918340000) (Some 1760313600000) = Inr [])"
    by blast
  with tie_store_dtstart
  have 1: "schedule_week 0 decimalNumber tie_store (Some 1760918340000) (Some 1760313600000) = Inr []"
    by simp
  from window_validation[of 0 decimalNumber tie_store None "Some 1760313600000"]
  have 2: "schedule_week 0 decimalNumber tie_store None (Some 1760313600000)
        = Inl (Status400 ''weekStart and weekEnd required'')"
    by blast
  from window_validation[of 0 decimalNumber tie_store "Some 1760313600000" "Some 0"]
  have 3: "schedule_week 0 decimalNumber tie_store (Some 1760313600000) (Some 0)
        = Inl (Status400 ''weekStart and weekEnd required'')"
    by blast
  from r d 1 2 3 show ?thesis by simp
qed

subsection \<open>The anchor and the virtual occurrences\<close>

text \<open>The time value \<^verbatim>\<open>setHours\<close> leaves, when it is valid.\<close>

lemma setHours_Some:
  "setHours tz (Some c) h m = Some s \<Longrightarrow>
   s = ((c + tz) div dayMs) * dayMs + h * 3600000 + m * 60000 - tz"
  by (simp add: setHours_def TimeClip_def split: if_splits)

text \<open>The instances come out in strictly increasing order of their original instance
  time: each day of the loop yields at most one, at the same time of day.\<close>

lemma gen_loop_increasing:
  "sorted_wrt (<) (map original_instance_at generated) \<Longrightarrow>
   (\<forall>c sm. cursor = Some c \<and> startMinutes = Some sm \<longrightarrow>
      (\<forall>i \<in> set generated. original_instance_at i <
          ((c + tz) div dayMs) * dayMs + (sm div 60) * 3600000 + (sm mod 60) * 60000 - tz)) \<Longrightarrow>
   sorted_wrt (<) (map original_instance_at
      (gen_loop tz ser byday interval until count startMinutes weekStart weekEnd cursor produced generated))"
proof (induction tz ser byday interval until count startMinutes weekStart weekEnd cursor produced generated
       rule: gen_loop.induct)
  case (1 tz ser byday interval until count startMinutes weekStart weekEnd cursor produced generated)
  show ?case
  proof (cases cursor)
    case None
    with "1.prems" show ?thesis by simp
  next
    case (Some c)
    show ?thesis
    proof (cases "c \<le> weekEnd")
      case False
      with Some "1.prems" show ?thesis by (simp add: gen_loop_stop)
    next
      case True
      have next_day: "\<And>c'. TimeClip (c + dayMs) = Some c' \<Longrightarrow> (c' + tz) div dayMs = (c + tz) div dayMs + 1"
        by (auto simp: TimeClip_def dayMs_def split: if_splits)
      show ?thesis
      proof (cases "gen_day tz ser byday interval until count startMinutes weekStart weekEnd c produced")
        case None
        have "sorted_wrt (<) (map original_instance_at
                (gen_loop tz ser byday interval until count startMinutes weekStart weekEnd
                   (TimeClip (c + dayMs)) produced generated))"
        proof (rule "1.IH"(1)[OF Some True None "1.prems"(1)], intro allI impI)
          fix c' sm
          assume a: "TimeClip (c + dayMs) = Some c' \<and> startMinutes = Some sm"
          show "\<forall>i \<in> set generated. original_instance_at i <
                  ((c' + tz) div dayMs) * dayMs + (sm div 60) * 3600000 + (sm mod 60) * 60000 - tz"
          proof
            fix i assume "i \<in> set generated"
            with "1.prems"(2) Some a have "original_instance_at i <
                ((c + tz) div dayMs) * dayMs + (sm div 60) * 3600000 + (sm mod 60) * 60000 - tz"
              by blast
            moreover from a next_day have "(c' + tz) div dayMs = (c + tz) div dayMs + 1" by blast
            ultimately show "original_instance_at i <
                  ((c' + tz) div dayMs) * dayMs + (sm div 60) * 3600000 + (sm mod 60) * 60000 - tz"
              by (simp add: dayMs_def algebra_simps)
          qed
        qed
        with Some True None show ?thesis by (simp add: gen_loop_skip)
      next
        case (Some j)
        from gen_day_Some[OF Some] obtain sm where sm: "startMinutes = Some sm"
          and sh: "setHours tz (Some c) (sm div 60) (sm mod 60) = Some (start_at j)"
          and oj: "original_instance_at j = start_at j"
          by blast
        from setHours_Some[OF sh] oj have ojv: "original_instance_at j =
            ((c + tz) div dayMs) * dayMs + (sm div 60) * 3600000 + (sm mod 60) * 60000 - tz"
          by simp
        have s1: "sorted_wrt (<) (map original_instance_at (generated @ [j]))"
          using "1.prems" \<open>cursor = Some c\<close> sm ojv by (auto simp: sorted_wrt_append)
        have "sorted_wrt (<) (map original_instance_at
                (gen_loop tz ser byday interval until count startMinutes weekStart weekEnd
                   (TimeClip (c + dayMs)) (produced + 1) (generated @ [j])))"
        proof (rule "1.IH"(2)[OF \<open>cursor = Some c\<close> True Some s1], intro allI impI)
          fix c' sm'
          assume a: "TimeClip (c + dayMs) = Some c' \<and> startMinutes = Some sm'"
          with sm have e: "sm' = sm" by simp
          from a next_day have nd: "(c' + tz) div dayMs = (c + tz) div dayMs + 1" by blast
          show "\<forall>i \<in> set (generated @ [j]). original_instance_at i <
                  ((c' + tz) div dayMs) * dayMs + (sm' div 60) * 3600000 + (sm' mod 60) * 60000 - tz"
          proof
            fix i assume "i \<in> set (generated @ [j])"
            then have "original_instance_at i \<le>
                ((c + tz) div dayMs) * dayMs + (sm div 60) * 3600000 + (sm mod 60) * 60000 - tz"
              using "1.prems"(2) \<open>cursor = Some c\<close> sm ojv by fastforce
            with nd e show "original_instance_at i <
                  ((c' + tz) div dayMs) * dayMs + (sm' div 60) * 3600000 + (sm' mod 60) * 60000 - tz"
              by (simp add: dayMs_def algebra_simps)
          qed
        qed
        with \<open>cursor = Some c\<close> True Some show ?thesis by (simp add: gen_loop_push)
      qed
    qed
  qed
qed


lemma genWeeklyInstances_distinct:
  assumes "genWeeklyInstances tz Number ser weekStart weekEnd = Inr xs"
  shows "distinct (map original_instance_at xs)"
proof -
  from genWeeklyInstances_Inr[OF assms] show ?thesis
  proof
    assume "xs = []" then show ?thesis by simp
  next
    assume "\<exists>byday interval startMinutes cursor.
           xs = gen_loop tz ser byday interval (number_or_null (s_until_at ser))
                  (number_or_null (s_count ser)) startMinutes weekStart weekEnd cursor 0 []"
    then obtain byday interval startMinutes cursor where
      xs: "xs = gen_loop tz ser byday interval (number_or_null (s_until_at ser))
                  (number_or_null (s_count ser)) startMinutes weekStart weekEnd cursor 0 []"
      by blast
    have "sorted_wrt (<) (map original_instance_at xs)"
      unfolding xs by (rule gen_loop_increasing) simp_all
    then show ?thesis by (simp add: strict_sorted_iff)
  qed
qed

lemma distinct_map_filter_key:
  assumes "distinct (map f xs)" and "\<And>x y. g x = Some y \<Longrightarrow> h y = Some (f x)"
  shows "distinct (map h (List.map_filter g xs))"
  using assms(1)
proof (induction xs)
  case Nil
  show ?case by simp
next
  case (Cons x xs)
  show ?case
  proof (cases "g x")
    case None
    with Cons show ?thesis by simp
  next
    case (Some y)
    have "h y \<notin> set (map h (List.map_filter g xs))"
    proof
      assume "h y \<in> set (map h (List.map_filter g xs))"
      then obtain y' where "y' \<in> set (List.map_filter g xs)" "h y' = h y" by auto
      then obtain x' where x': "x' \<in> set xs" "g x' = Some y'"
        by (auto simp: set_map_filter_iff)
      from assms(2)[OF x'(2)] assms(2)[OF Some] \<open>h y' = h y\<close> have "f x' = f x" by simp
      with x'(1) have "f x \<in> f ` set xs" by (metis imageI)
      with Cons.prems show False by simp
    qed
    with Cons Some show ?thesis by simp
  qed
qed

text \<open>What one series contributes: recurring events of that series, with different
  original instance times.\<close>

lemma series_events_distinct:
  assumes "series_events tz Number st weekStart weekEnd ser = Inr evs"
  shows "distinct (map e_originalInstanceAt evs)
       \<and> (\<forall>ev \<in> set evs. e_source ev = ''recurring'' \<and> e_recurringSeriesId ev = Some (s_id ser))"
proof -
  let ?ov = "overlay_item (find (\<lambda>c. c_id c = s_client_id ser) (clients st)) ser
               (mapEx (series_exceptions st ser))"
  from series_events_Inr[OF assms] obtain generated where
    g: "genWeeklyInstances tz Number ser weekStart weekEnd = Inr generated"
    and evs: "evs = List.map_filter ?ov generated"
    by blast
  have "distinct (map e_originalInstanceAt (List.map_filter ?ov generated))"
  proof (rule distinct_map_filter_key[OF genWeeklyInstances_distinct[OF g]])
    fix x y assume "?ov x = Some y"
    from overlay_item_Some[OF this] show "e_originalInstanceAt y = Some (original_instance_at x)"
      by simp
  qed
  moreover have "\<forall>ev \<in> set evs. e_source ev = ''recurring'' \<and> e_recurringSeriesId ev = Some (s_id ser)"
  proof
    fix ev assume "ev \<in> set evs"
    then obtain x where "?ov x = Some ev" unfolding evs by (auto simp: set_map_filter_iff)
    from overlay_item_Some[OF this]
    show "e_source ev = ''recurring'' \<and> e_recurringSeriesId ev = Some (s_id ser)" by simp
  qed
  ultimately show ?thesis by (simp add: evs)
qed




















lemma list_all2_mem:
  "list_all2 P xs ys \<Longrightarrow> x \<in> set xs \<Longrightarrow> \<exists>y \<in> set ys. P x y"
  by (induction xs ys rule: list_all2_induct) auto

lemma schedule_week_set:
  assumes "schedule_week tz Number st (Some weekStart) (Some weekEnd) = Inr evs"
  shows "\<exists>per. list_all2 (\<lambda>ser es. series_events tz Number st weekStart weekEnd ser = Inr es)
                  (select_series st weekStart weekEnd) per
             \<and> set evs = set (map single_event (select_singles st weekStart weekEnd)) \<union> set (concat per)"
proof -
  from schedule_week_Inr[OF assms] obtain eventList where
    p: "push_series tz Number st weekStart weekEnd (select_series st weekStart weekEnd)
          (map single_event (select_singles st weekStart weekEnd)) = Inr eventList"
    and evs: "evs = sort_key e_startAt eventList"
    by auto
  from push_series_Inr[OF p] obtain per where
    per: "list_all2 (\<lambda>ser es. series_events tz Number st weekStart weekEnd ser = Inr es)
            (select_series st weekStart weekEnd) per"
    and el: "eventList = map single_event (select_singles st weekStart weekEnd) @ concat per"
    by blast
  from evs el have "set evs = set (map single_event (select_singles st weekStart weekEnd)) \<union> set (concat per)"
    by simp
  with per show ?thesis by blast
qed










subsection \<open>The overlay in the result of the query\<close>

text \<open>A virtual occurrence of the result comes from a selected series with its id, and
  every event a selected series contributes is in the result.\<close>

lemma list_all2_mem_right:
  "list_all2 P xs ys \<Longrightarrow> y \<in> set ys \<Longrightarrow> \<exists>x \<in> set xs. P x y"
  by (induction xs ys rule: list_all2_induct) auto

lemma series_exceptions_id:
  "s_id ser' = s_id ser \<Longrightarrow> series_exceptions st ser' = series_exceptions st ser"
  by (simp add: series_exceptions_def)

lemma recurring_event_origin:
  assumes "schedule_week tz Number st (Some weekStart) (Some weekEnd) = Inr evs"
    and "e \<in> set evs" and "e_source e = ''recurring''"
  shows "\<exists>ser' es. ser' \<in> set (select_series st weekStart weekEnd)
           \<and> series_events tz Number st weekStart weekEnd ser' = Inr es \<and> e \<in> set es
           \<and> e_recurringSeriesId e = Some (s_id ser')"
proof -
  from schedule_week_set[OF assms(1)] obtain per where
    per: "list_all2 (\<lambda>ser es. series_events tz Number st weekStart weekEnd ser = Inr es)
            (select_series st weekStart weekEnd) per"
    and evs: "set evs = set (map single_event (select_singles st weekStart weekEnd)) \<union> set (concat per)"
    by blast
  have "e \<notin> set (map single_event (select_singles st weekStart weekEnd))"
    using assms(3) by (auto simp: single_event_def)
  with assms(2) evs have "e \<in> set (concat per)" by blast
  then obtain es where es: "es \<in> set per" "e \<in> set es" by auto
  from list_all2_mem_right[OF per es(1)] obtain ser' where
    s: "ser' \<in> set (select_series st weekStart weekEnd)"
       "series_events tz Number st weekStart weekEnd ser' = Inr es"
    by blast
  from series_events_distinct[OF s(2)] es(2) have "e_recurringSeriesId e = Some (s_id ser')" by simp
  with s es(2) show ?thesis by blast
qed

lemma selected_series_events:
  assumes "schedule_week tz Number st (Some weekStart) (Some weekEnd) = Inr evs"
    and "ser \<in> set (select_series st weekStart weekEnd)"
  shows "\<exists>es. series_events tz Number st weekStart weekEnd ser = Inr es \<and> set es \<subseteq> set evs"
proof -
  from schedule_week_set[OF assms(1)] obtain per where
    per: "list_all2 (\<lambda>ser es. series_events tz Number st weekStart weekEnd ser = Inr es)
            (select_series st weekStart weekEnd) per"
    and evs: "set evs = set (map single_event (select_singles st weekStart weekEnd)) \<union> set (concat per)"
    by blast
  from list_all2_mem[OF per assms(2)] obtain es where
    es: "es \<in> set per" "series_events tz Number st weekStart weekEnd ser = Inr es"
    by blast
  from es(1) evs have "set es \<subseteq> set evs" by auto
  with es(2) show ?thesis by blast
qed

lemma overlay_at_query:
  assumes "schedule_week tz Number st (Some weekStart) (Some weekEnd) = Inr evs"
    and "ser \<in> set (select_series st weekStart weekEnd)"
    and "genWeeklyInstances tz Number ser weekStart weekEnd = Inr generated"
    and "item \<in> set generated"
    and "\<not> (\<exists>x. mapEx (series_exceptions st ser) (original_instance_at item) = Some x
               \<and> x_status x = ''Canceled'')"
  shows "\<exists>ev \<in> set evs.
           overlay_item (find (\<lambda>c. c_id c = s_client_id ser) (clients st)) ser
             (mapEx (series_exceptions st ser)) item = Some ev"
proof -
  from selected_series_events[OF assms(1,2)] obtain es where
    es: "series_events tz Number st weekStart weekEnd ser = Inr es" "set es \<subseteq> set evs"
    by blast
  from kept_present[OF es(1) assms(3,4,5)] es(2) show ?thesis by blast
qed

lemma canceled_absent_query:
  assumes "schedule_week tz Number st (Some weekStart) (Some weekEnd) = Inr evs"
    and "mapEx (series_exceptions st ser) t = Some x" and "x_status x = ''Canceled''"
    and "e \<in> set evs" and "e_source e = ''recurring''"
    and "e_recurringSeriesId e = Some (s_id ser)"
  shows "e_originalInstanceAt e \<noteq> Some t"
proof -
  from recurring_event_origin[OF assms(1,4,5)] obtain ser' es where
    s: "series_events tz Number st weekStart weekEnd ser' = Inr es" "e \<in> set es"
       "e_recurringSeriesId e = Some (s_id ser')"
    by blast
  from s(3) assms(6) have "s_id ser' = s_id ser" by simp
  then have "series_exceptions st ser' = series_exceptions st ser"
    by (rule series_exceptions_id)
  with assms(2) have m: "mapEx (series_exceptions st ser') t = Some x" by simp
  from canceled_absent[OF s(1) m assms(3) s(2)] show ?thesis .
qed

text \<open>
  Claim C4, as amended. Take a window query that returns a result, a series it selects and
  an instance the generator gives for that series in the window. The exception of the
  instance is the last of the rows of \<open>recurring_exceptions\<close> that carry the id of the
  series and the instance's \<open>original_instance_at\<close>, in the order the handler fetches
  them (its Map keeps the last row of a key).
  \<^item> If the exception has the status \<open>Canceled\<close>, the instance is absent from the result:
    no event of source \<open>recurring\<close> has the id of the series as \<open>recurringSeriesId\<close>
    and the instance's \<open>originalInstanceAt\<close>.
  \<^item> If it has the status \<open>Moved\<close> and its \<open>new_start_at\<close> and \<open>new_end_at\<close> are present
    and not 0, the instance appears in the result with these as \<open>startAt\<close> and \<open>endAt\<close>,
    under its own id \<open>seriesId:originalInstanceAt\<close> and \<open>originalInstanceAt\<close>, with the
    status \<open>Scheduled\<close>.
  \<^item> If no row matches the instance, it appears in the result with its own times and the
    status \<open>Scheduled\<close>.
\<close>

theorem exception_overlay:
  assumes "schedule_week tz Number st (Some weekStart) (Some weekEnd) = Inr evs"
    and "ser \<in> set (select_series st weekStart weekEnd)"
    and "genWeeklyInstances tz Number ser weekStart weekEnd = Inr generated"
    and "item \<in> set generated"
  shows "(matching_exceptions st ser (original_instance_at item) \<noteq> []
          \<and> x_status (last (matching_exceptions st ser (original_instance_at item))) = ''Canceled''
          \<longrightarrow> \<not> (\<exists>e \<in> set evs. e_source e = ''recurring''
                     \<and> e_recurringSeriesId e = Some (s_id ser)
                     \<and> e_originalInstanceAt e = Some (original_instance_at item)))
       \<and> (\<forall>ns ne. matching_exceptions st ser (original_instance_at item) \<noteq> []
             \<and> x_status (last (matching_exceptions st ser (original_instance_at item))) = ''Moved''
             \<and> x_new_start_at (last (matching_exceptions st ser (original_instance_at item))) = Some ns
             \<and> ns \<noteq> 0
             \<and> x_new_end_at (last (matching_exceptions st ser (original_instance_at item))) = Some ne
             \<and> ne \<noteq> 0
          \<longrightarrow> (\<exists>e \<in> set evs. e_source e = ''recurring''
                  \<and> e_id e = s_id ser @ '':'' @ show_int (original_instance_at item)
                  \<and> e_recurringSeriesId e = Some (s_id ser)
                  \<and> e_originalInstanceAt e = Some (original_instance_at item)
                  \<and> e_startAt e = ns \<and> e_endAt e = ne \<and> e_status e = ''Scheduled''))
       \<and> (matching_exceptions st ser (original_instance_at item) = []
          \<longrightarrow> (\<exists>e \<in> set evs. e_source e = ''recurring''
                  \<and> e_id e = s_id ser @ '':'' @ show_int (original_instance_at item)
                  \<and> e_recurringSeriesId e = Some (s_id ser)
                  \<and> e_originalInstanceAt e = Some (original_instance_at item)
                  \<and> e_startAt e = start_at item \<and> e_endAt e = end_at item
                  \<and> e_status e = ''Scheduled''))"
proof -
  define t where "t = original_instance_at item"
  define xs where "xs = matching_exceptions st ser t"
  define ov where "ov = overlay_item (find (\<lambda>c. c_id c = s_client_id ser) (clients st)) ser
             (mapEx (series_exceptions st ser)) item"
  have look: "mapEx (series_exceptions st ser) t = (if xs = [] then None else Some (last xs))"
    unfolding xs_def by (rule mapEx_matching)
  have A: "\<not> (\<exists>e \<in> set evs. e_source e = ''recurring''
                     \<and> e_recurringSeriesId e = Some (s_id ser)
                     \<and> e_originalInstanceAt e = Some t)"
    if c: "xs \<noteq> []" "x_status (last xs) = ''Canceled''"
  proof -
    from look c(1) have m: "mapEx (series_exceptions st ser) t = Some (last xs)" by simp
    show ?thesis
      using canceled_absent_query[OF assms(1) m c(2)] by blast
  qed
  have B: "\<exists>e \<in> set evs. e_source e = ''recurring''
                  \<and> e_id e = s_id ser @ '':'' @ show_int t
                  \<and> e_recurringSeriesId e = Some (s_id ser)
                  \<and> e_originalInstanceAt e = Some t
                  \<and> e_startAt e = ns \<and> e_endAt e = ne \<and> e_status e = ''Scheduled''"
    if c: "xs \<noteq> []" "x_status (last xs) = ''Moved''" "x_new_start_at (last xs) = Some ns"
      "ns \<noteq> 0" "x_new_end_at (last xs) = Some ne" "ne \<noteq> 0" for ns ne
  proof -
    from look c(1) have m: "mapEx (series_exceptions st ser) t = Some (last xs)" by simp
    have "''Moved'' \<noteq> ''Canceled''" by simp
    with c(2) have nc: "x_status (last xs) \<noteq> ''Canceled''" by simp
    have n: "\<not> (\<exists>x. mapEx (series_exceptions st ser) (original_instance_at item) = Some x
               \<and> x_status x = ''Canceled'')"
      using m nc unfolding t_def by simp
    from overlay_at_query[OF assms n] obtain ev where
      ev: "ev \<in> set evs" "ov = Some ev" unfolding ov_def by blast
    have s: "num_or (Some ns) (start_at item) = ns" using c(4) by (simp add: num_or_def)
    have e: "num_or (Some ne) (end_at item) = ne" using c(6) by (simp add: num_or_def)
    from overlay_item_Some[OF ev(2)[unfolded ov_def]]
    have "e_source ev = ''recurring''
        \<and> e_id ev = s_id ser @ '':'' @ show_int t
        \<and> e_recurringSeriesId ev = Some (s_id ser)
        \<and> e_originalInstanceAt ev = Some t
        \<and> e_startAt ev = ns \<and> e_endAt ev = ne \<and> e_status ev = ''Scheduled''"
      unfolding t_def[symmetric] m by (simp only: option.case c(3) c(5) s e simp_thms)
    with ev(1) show ?thesis by blast
  qed
  have C: "\<exists>e \<in> set evs. e_source e = ''recurring''
                  \<and> e_id e = s_id ser @ '':'' @ show_int t
                  \<and> e_recurringSeriesId e = Some (s_id ser)
                  \<and> e_originalInstanceAt e = Some t
                  \<and> e_startAt e = start_at item \<and> e_endAt e = end_at item
                  \<and> e_status e = ''Scheduled''"
    if c: "xs = []"
  proof -
    from look c have m: "mapEx (series_exceptions st ser) t = None" by simp
    have n: "\<not> (\<exists>x. mapEx (series_exceptions st ser) (original_instance_at item) = Some x
               \<and> x_status x = ''Canceled'')"
      using m unfolding t_def by simp
    from overlay_at_query[OF assms n] obtain ev where
      ev: "ev \<in> set evs" "ov = Some ev" unfolding ov_def by blast
    from overlay_item_Some[OF ev(2)[unfolded ov_def]]
    have "e_source ev = ''recurring''
        \<and> e_id ev = s_id ser @ '':'' @ show_int t
        \<and> e_recurringSeriesId ev = Some (s_id ser)
        \<and> e_originalInstanceAt ev = Some t
        \<and> e_startAt ev = start_at item \<and> e_endAt ev = end_at item \<and> e_status ev = ''Scheduled''"
      unfolding t_def[symmetric] m by (simp only: option.case simp_thms)
    with ev(1) show ?thesis by blast
  qed
  from A B C show ?thesis unfolding xs_def t_def by blast
qed

text \<open>In the stores of the example an appointment row of the series carries the
  instance's \<open>original_instance_at\<close>. The row is an event of source \<open>single\<close> and is
  returned whatever the exception says; the clauses above are about the virtual
  occurrence.\<close>

lemma canceled_row_week:
  "schedule_week 0 decimalNumber (row_store [canceled_exception]) (Some 1760313600000) (Some 1760918340000)
     = Inr [row_event]"
  by code_simp

lemma moved_row_week:
  "schedule_week 0 decimalNumber (row_store [moved_exception]) (Some 1760313600000) (Some 1760918340000)
     = Inr [row_event, wed_event 1760623200000 1760626200000]"
  by code_simp

lemma plain_row_week:
  "schedule_week 0 decimalNumber (row_store []) (Some 1760313600000) (Some 1760918340000)
     = Inr [row_event, wed_event 1760522400000 1760525400000]"
  by code_simp

lemma row_store_selected:
  "wed_series \<in> set (select_series (row_store exs) 1760313600000 1760918340000)"
  by (simp add: select_series_def row_store_def wed_series_def)

lemma row_store_matching:
  "matching_exceptions (row_store [canceled_exception]) wed_series (original_instance_at wed_instance)
     = [canceled_exception]"
  "matching_exceptions (row_store [moved_exception]) wed_series (original_instance_at wed_instance)
     = [moved_exception]"
  "matching_exceptions (row_store []) wed_series (original_instance_at wed_instance) = []"
  by (simp_all add: matching_exceptions_def row_store_def wed_series_def wed_instance_def
        canceled_exception_def moved_exception_def)

theorem exception_overlay_witness:
  "genWeeklyInstances 0 decimalNumber wed_series 1760313600000 1760918340000 = Inr [wed_instance]
   \<and> wed_instance \<in> set [wed_instance]
   \<and> schedule_week 0 decimalNumber (row_store [canceled_exception])
        (Some 1760313600000) (Some 1760918340000) = Inr [row_event]
   \<and> wed_series \<in> set (select_series (row_store [canceled_exception]) 1760313600000 1760918340000)
   \<and> matching_exceptions (row_store [canceled_exception]) wed_series
        (original_instance_at wed_instance) = [canceled_exception]
   \<and> x_status canceled_exception = ''Canceled''
   \<and> \<not> (\<exists>e \<in> set [row_event]. e_source e = ''recurring''
            \<and> e_recurringSeriesId e = Some (s_id wed_series)
            \<and> e_originalInstanceAt e = Some (original_instance_at wed_instance))
   \<and> schedule_week 0 decimalNumber (row_store [moved_exception])
        (Some 1760313600000) (Some 1760918340000)
        = Inr [row_event, wed_event 1760623200000 1760626200000]
   \<and> wed_series \<in> set (select_series (row_store [moved_exception]) 1760313600000 1760918340000)
   \<and> matching_exceptions (row_store [moved_exception]) wed_series
        (original_instance_at wed_instance) = [moved_exception]
   \<and> x_status moved_exception = ''Moved''
   \<and> x_new_start_at moved_exception = Some 1760623200000
   \<and> x_new_end_at moved_exception = Some 1760626200000
   \<and> (\<exists>e \<in> set [row_event, wed_event 1760623200000 1760626200000].
         e_source e = ''recurring'' \<and> e_id e = ''series:1760522400000''
         \<and> e_originalInstanceAt e = Some 1760522400000
         \<and> e_startAt e = 1760623200000 \<and> e_endAt e = 1760626200000 \<and> e_status e = ''Scheduled'')
   \<and> schedule_week 0 decimalNumber (row_store []) (Some 1760313600000) (Some 1760918340000)
        = Inr [row_event, wed_event 1760522400000 1760525400000]
   \<and> wed_series \<in> set (select_series (row_store []) 1760313600000 1760918340000)
   \<and> matching_exceptions (row_store []) wed_series (original_instance_at wed_instance) = []
   \<and> (\<exists>e \<in> set [row_event, wed_event 1760522400000 1760525400000].
         e_source e = ''recurring'' \<and> e_id e = ''series:1760522400000''
         \<and> e_startAt e = start_at wed_instance \<and> e_endAt e = end_at wed_instance
         \<and> e_status e = ''Scheduled'')"
proof -
  have m: "wed_instance \<in> set [wed_instance]" by simp
  have i: "s_id wed_series @ '':'' @ show_int (original_instance_at wed_instance)
             = ''series:1760522400000''"
    by code_simp
  have o: "original_instance_at wed_instance = 1760522400000"
    by (simp add: wed_instance_def)
  have j: "s_id wed_series @ '':'' @ show_int 1760522400000 = ''series:1760522400000''"
    by code_simp
  have c: "matching_exceptions (row_store [canceled_exception]) wed_series
             (original_instance_at wed_instance) \<noteq> []
           \<and> x_status (last (matching_exceptions (row_store [canceled_exception]) wed_series
                (original_instance_at wed_instance))) = ''Canceled''"
    unfolding row_store_matching by (simp add: canceled_exception_def)
  from exception_overlay[OF canceled_row_week row_store_selected wed_instance_week m] c
  have 1: "\<not> (\<exists>e \<in> set [row_event]. e_source e = ''recurring''
            \<and> e_recurringSeriesId e = Some (s_id wed_series)
            \<and> e_originalInstanceAt e = Some (original_instance_at wed_instance))"
    by blast
  have v: "matching_exceptions (row_store [moved_exception]) wed_series
             (original_instance_at wed_instance) \<noteq> []
           \<and> x_status (last (matching_exceptions (row_store [moved_exception]) wed_series
                (original_instance_at wed_instance))) = ''Moved''
           \<and> x_new_start_at (last (matching_exceptions (row_store [moved_exception]) wed_series
                (original_instance_at wed_instance))) = Some 1760623200000
           \<and> (1760623200000 :: int) \<noteq> 0
           \<and> x_new_end_at (last (matching_exceptions (row_store [moved_exception]) wed_series
                (original_instance_at wed_instance))) = Some 1760626200000
           \<and> (1760626200000 :: int) \<noteq> 0"
    unfolding row_store_matching by (simp add: moved_exception_def)
  from exception_overlay[OF moved_row_week row_store_selected wed_instance_week m] v
  have "\<exists>e \<in> set [row_event, wed_event 1760623200000 1760626200000].
          e_source e = ''recurring''
        \<and> e_id e = s_id wed_series @ '':'' @ show_int (original_instance_at wed_instance)
        \<and> e_recurringSeriesId e = Some (s_id wed_series)
        \<and> e_originalInstanceAt e = Some (original_instance_at wed_instance)
        \<and> e_startAt e = 1760623200000 \<and> e_endAt e = 1760626200000 \<and> e_status e = ''Scheduled''"
    by blast
  then have 2: "\<exists>e \<in> set [row_event, wed_event 1760623200000 1760626200000].
         e_source e = ''recurring'' \<and> e_id e = ''series:1760522400000''
         \<and> e_originalInstanceAt e = Some 1760522400000
         \<and> e_startAt e = 1760623200000 \<and> e_endAt e = 1760626200000 \<and> e_status e = ''Scheduled''"
    unfolding o j by blast
  from exception_overlay[OF plain_row_week row_store_selected wed_instance_week m]
    row_store_matching(3)
  have "\<exists>e \<in> set [row_event, wed_event 1760522400000 1760525400000].
          e_source e = ''recurring''
        \<and> e_id e = s_id wed_series @ '':'' @ show_int (original_instance_at wed_instance)
        \<and> e_recurringSeriesId e = Some (s_id wed_series)
        \<and> e_originalInstanceAt e = Some (original_instance_at wed_instance)
        \<and> e_startAt e = start_at wed_instance \<and> e_endAt e = end_at wed_instance
        \<and> e_status e = ''Scheduled''"
    by blast
  then have 3: "\<exists>e \<in> set [row_event, wed_event 1760522400000 1760525400000].
         e_source e = ''recurring'' \<and> e_id e = ''series:1760522400000''
         \<and> e_startAt e = start_at wed_instance \<and> e_endAt e = end_at wed_instance
         \<and> e_status e = ''Scheduled''"
    unfolding i by blast
  have s: "x_status canceled_exception = ''Canceled''" "x_status moved_exception = ''Moved''"
    "x_new_start_at moved_exception = Some 1760623200000"
    "x_new_end_at moved_exception = Some 1760626200000"
    by (simp_all add: canceled_exception_def moved_exception_def)
  from wed_instance_week m canceled_row_week row_store_selected[of "[canceled_exception]"]
    row_store_matching(1) s(1) 1 moved_row_week row_store_selected[of "[moved_exception]"]
    row_store_matching(2) s(2,3,4) 2 plain_row_week row_store_selected[of "[]"]
    row_store_matching(3) 3
  show ?thesis by (intro conjI)
qed

text \<open>The claim as stated fails for a move to the time value 0: the event keeps the start
  of the generated instance. It also fails when a canceling row is followed by a moving row
  for the same instance: the instance is returned, moved.\<close>

lemma zero_store_week:
  "schedule_week 0 decimalNumber (store_with [zero_exception]) (Some 1760313600000) (Some 1760918340000)
     = Inr [wed_event 1760522400000 3000000]"
  by code_simp

lemma later_store_week:
  "schedule_week 0 decimalNumber (store_with [canceled_exception, later_exception])
      (Some 1760313600000) (Some 1760918340000)
     = Inr [wed_event 1760709600000 1760712600000]"
  by code_simp

theorem moved_to_zero_counterexample:
  "genWeeklyInstances 0 decimalNumber wed_series 1760313600000 1760918340000 = Inr [wed_instance]
   \<and> original_instance_at wed_instance = 1760522400000
   \<and> start_at wed_instance = 1760522400000
   \<and> recurring_exceptions (store_with [zero_exception]) = [zero_exception]
   \<and> x_recurring_series_id zero_exception = s_id wed_series
   \<and> x_original_instance_at zero_exception = original_instance_at wed_instance
   \<and> x_status zero_exception = ''Moved''
   \<and> x_new_start_at zero_exception = Some 0
   \<and> x_new_end_at zero_exception = Some 3000000
   \<and> schedule_week 0 decimalNumber (store_with [zero_exception])
        (Some 1760313600000) (Some 1760918340000) = Inr [wed_event 1760522400000 3000000]
   \<and> e_startAt (wed_event 1760522400000 3000000) = 1760522400000
   \<and> e_startAt (wed_event 1760522400000 3000000) \<noteq> 0
   \<and> recurring_exceptions (store_with [canceled_exception, later_exception])
        = [canceled_exception, later_exception]
   \<and> x_recurring_series_id canceled_exception = s_id wed_series
   \<and> x_original_instance_at canceled_exception = original_instance_at wed_instance
   \<and> x_status canceled_exception = ''Canceled''
   \<and> schedule_week 0 decimalNumber (store_with [canceled_exception, later_exception])
        (Some 1760313600000) (Some 1760918340000) = Inr [wed_event 1760709600000 1760712600000]
   \<and> e_id (wed_event 1760709600000 1760712600000) = ''series:1760522400000''
   \<and> e_originalInstanceAt (wed_event 1760709600000 1760712600000) = Some 1760522400000"
  using wed_instance_week zero_store_week later_store_week
  by (simp add: zero_exception_def canceled_exception_def wed_event_def wed_instance_def
        wed_series_def store_with_def)

subsection \<open>The calendar export\<close>

lemma filter_unique:
  "distinct (map f xs) \<Longrightarrow> k \<in> f ` set xs \<Longrightarrow> \<exists>x. filter (\<lambda>y. f y = k) xs = [x]"
proof (induction xs)
  case Nil
  then show ?case by simp
next
  case (Cons a xs)
  show ?case
  proof (cases "f a = k")
    case True
    have "filter (\<lambda>y. f y = k) xs = []"
    proof (rule ccontr)
      assume "filter (\<lambda>y. f y = k) xs \<noteq> []"
      then obtain y where "y \<in> set xs" "f y = k" by (auto simp: filter_empty_conv)
      with True have "f a \<in> f ` set xs" by (metis imageI)
      with Cons.prems(1) show False by simp
    qed
    with True show ?thesis by simp
  next
    case False
    with Cons show ?thesis by auto
  qed
qed

lemma join_clients_fst:
  assumes "distinct (map c_id (clients st))"
    and "\<forall>a \<in> set rows. a_client_id a \<in> c_id ` set (clients st)"
  shows "map fst (join_clients st rows) = rows"
  using assms(2)
proof (induction rows)
  case Nil
  show ?case by (simp add: join_clients_def)
next
  case (Cons a rows)
  from Cons.prems have "a_client_id a \<in> c_id ` set (clients st)" by simp
  from filter_unique[OF assms(1) this] obtain c where
    "filter (\<lambda>c. c_id c = a_client_id a) (clients st) = [c]" by blast
  with Cons show ?case by (simp add: join_clients_def)
qed

lemma select_ics_events_fst:
  assumes "distinct (map c_id (clients st))"
    and "\<forall>a \<in> set (appointments st). a_client_id a \<in> c_id ` set (clients st)"
  shows "map fst (select_ics_events st) = filter (\<lambda>a. a_status a \<noteq> ''Canceled'') (appointments st)"
  unfolding select_ics_events_def
  by (rule join_clients_fst[OF assms(1)]) (use assms(2) in auto)

lemma rrule_lines_form:
  "l \<in> set (rrule_lines st a) \<Longrightarrow> \<exists>t. l = ''RRULE:'' @ t"
  by (auto simp: rrule_lines_def split: option.splits if_splits)

lemma vevent_begin:
  "filter (\<lambda>l. l = ''BEGIN:VEVENT'') (vevent now st r) = [''BEGIN:VEVENT'']"
proof -
  have "filter (\<lambda>l. l = ''BEGIN:VEVENT'') (rrule_lines st (fst r)) = []"
    by (auto simp: filter_empty_conv dest!: rrule_lines_form)
  then show ?thesis by (simp add: vevent_def)
qed

lemma vevent_uid:
  "filter (starts_with ''UID:'') (vevent now st r) = [''UID:'' @ a_id (fst r) @ ''@local'']"
proof -
  have "filter (starts_with ''UID:'') (rrule_lines st (fst r)) = []"
    by (auto simp: filter_empty_conv starts_with_def dest!: rrule_lines_form)
  then show ?thesis by (simp add: vevent_def starts_with_def)
qed

lemma vevent_rrule:
  "filter (starts_with ''RRULE:'') (vevent now st r) = rrule_lines st (fst r)"
proof -
  have "filter (starts_with ''RRULE:'') (rrule_lines st (fst r)) = rrule_lines st (fst r)"
    by (auto simp: filter_id_conv starts_with_def dest!: rrule_lines_form)
  then show ?thesis by (simp add: vevent_def starts_with_def)
qed

lemma filter_concat_map_single:
  assumes "\<And>x. filter P (f x) = [g x]"
  shows "filter P (concat (map f xs)) = map g xs"
  by (induction xs) (simp_all add: assms)

lemma vevent_end:
  "filter (\<lambda>l. l = ''END:VEVENT'') (vevent now st r) = [''END:VEVENT'']"
proof -
  have "filter (\<lambda>l. l = ''END:VEVENT'') (rrule_lines st (fst r)) = []"
    by (auto simp: filter_empty_conv dest!: rrule_lines_form)
  then show ?thesis by (simp add: vevent_def)
qed

lemma vevent_frame:
  "hd (vevent now st r) = ''BEGIN:VEVENT'' \<and> last (vevent now st r) = ''END:VEVENT''
   \<and> filter (\<lambda>l. l = ''BEGIN:VEVENT'' \<or> l = ''END:VEVENT'') (vevent now st r)
       = [''BEGIN:VEVENT'', ''END:VEVENT'']"
proof -
  have "filter (\<lambda>l. l = ''BEGIN:VEVENT'' \<or> l = ''END:VEVENT'') (rrule_lines st (fst r)) = []"
    by (auto simp: filter_empty_conv dest!: rrule_lines_form)
  then show ?thesis by (simp add: vevent_def)
qed

text \<open>When no emitted text holds a line break, the content lines of the document are
  the lines the handler pushed, followed by the empty piece after the final CR LF.\<close>

lemma document_lines_step:
  "x \<noteq> CHR 0x0D \<Longrightarrow>
     document_lines (x # ys) = (case document_lines ys of [] \<Rightarrow> [[x]] | p # ps \<Rightarrow> (x # p) # ps)"
  by (cases ys) simp_all

lemma document_lines_line:
  "single_line l \<Longrightarrow> document_lines (l @ CRLF @ rest) = l # document_lines rest"
proof (induction l)
  case Nil
  show ?case by (simp add: CRLF_def)
next
  case (Cons x l)
  from Cons.prems have x: "x \<noteq> CHR 0x0D" and l: "single_line l"
    by (auto simp: single_line_def)
  from Cons.IH[OF l] show ?case
    by (simp add: document_lines_step[OF x])
qed

lemma document_lines_join:
  "\<forall>l \<in> set (l0 # ls). single_line l \<Longrightarrow>
     document_lines (join_lines (l0 # ls) @ CRLF) = (l0 # ls) @ [[]]"
proof (induction ls arbitrary: l0)
  case Nil
  then have "single_line l0" by simp
  from document_lines_line[OF this, of "[]"] show ?case by simp
next
  case (Cons l1 ls)
  then have s: "single_line l0" and r: "\<forall>l \<in> set (l1 # ls). single_line l" by simp_all
  have "join_lines (l0 # l1 # ls) @ CRLF = l0 @ CRLF @ (join_lines (l1 # ls) @ CRLF)"
    by simp
  then show ?case
    using document_lines_line[OF s, of "join_lines (l1 # ls) @ CRLF"] Cons.IH[OF r]
    by simp
qed

lemma digit_char_single:
  assumes "0 \<le> d" and "d < 10"
  shows "single_line [digit_char d]"
proof -
  have c: "(of_char (digit_char d) :: int) = 48 + d"
    using assms by (simp add: digit_char_def)
  have "digit_char d \<noteq> CHR 0x0D"
  proof
    assume "digit_char d = CHR 0x0D"
    then have "(of_char (digit_char d) :: int) = of_char (CHR 0x0D)" by simp
    with c assms show False by simp
  qed
  moreover have "digit_char d \<noteq> CHR 0x0A"
  proof
    assume "digit_char d = CHR 0x0A"
    then have "(of_char (digit_char d) :: int) = of_char (CHR 0x0A)" by simp
    with c assms show False by simp
  qed
  ultimately show ?thesis by (auto simp: single_line_def)
qed

lemma single_line_append [simp]:
  "single_line (a @ b) \<longleftrightarrow> single_line a \<and> single_line b"
  by (auto simp: single_line_def)

lemma show_digits_single:
  "0 \<le> n \<Longrightarrow> single_line (show_digits n)"
proof (induction n rule: show_digits.induct)
  case (1 n)
  show ?case
  proof (cases "n < 10")
    case True
    with 1(2) digit_char_single[of n] show ?thesis
      by (simp add: show_digits.simps[of n])
  next
    case False
    with 1 have "single_line (show_digits (n div 10))" by simp
    moreover have "single_line [digit_char (n mod 10)]"
      by (rule digit_char_single) simp_all
    ultimately show ?thesis
      using False by (simp add: show_digits.simps[of n])
  qed
qed

lemma show_int_single: "single_line (show_int i)"
  using show_digits_single[of i] show_digits_single[of "- i"]
  by (simp add: show_int_def single_line_def)

lemma pad_single: "single_line (pad n)"
  using show_int_single[of n] by (simp add: pad_def Let_def single_line_def)

lemma formatIcsDate_single: "single_line (formatIcsDate t)"
proof (cases "newDate t")
  case None
  then show ?thesis by (simp add: formatIcsDate_def single_line_def)
next
  case (Some u)
  obtain y m d where c: "civil_from_days (u div dayMs) = (y, m, d)"
    by (cases "civil_from_days (u div dayMs)") auto
  have k: "single_line ''T''" "single_line ''Z''" by (simp_all add: single_line_def)
  have "formatIcsDate t = show_int y @ pad m @ pad d @ ''T'' @ pad ((u mod dayMs) div 3600000)
               @ pad ((u mod 3600000) div 60000) @ pad ((u mod 60000) div 1000) @ ''Z''"
    using Some c by (simp add: formatIcsDate_def)
  then show ?thesis
    by (simp only: single_line_append show_int_single pad_single k simp_thms)
qed

lemma strip_reserved_single: "single_line t \<Longrightarrow> single_line (strip_reserved t)"
  by (simp add: strip_reserved_def single_line_def)

lemma join_clients_snd:
  "r \<in> set (join_clients st rows) \<Longrightarrow> fst r \<in> set rows \<and> snd r \<in> c_name ` set (clients st)"
  by (auto simp: join_clients_def)

lemma rrule_lines_series:
  assumes "l \<in> set (rrule_lines st a)"
  shows "\<exists>ser \<in> set (recurring_series st). l = ''RRULE:'' @ s_rrule ser"
proof -
  from assms obtain sid ser where
    f: "find (\<lambda>s. s_id s = sid) (recurring_series st) = Some ser"
    and l: "l = ''RRULE:'' @ s_rrule ser"
    by (auto simp: rrule_lines_def split: option.splits if_splits)
  from f obtain i where "i < length (recurring_series st)" "ser = recurring_series st ! i"
    unfolding find_Some_iff by blast
  then have "ser \<in> set (recurring_series st)" by simp
  with l show ?thesis by blast
qed

lemma rrule_lines_single:
  assumes "\<forall>s \<in> set (recurring_series st). single_line (s_rrule s)"
  shows "list_all single_line (rrule_lines st a)"
proof -
  have k: "single_line ''RRULE:''" by (simp add: single_line_def)
  have "single_line l" if "l \<in> set (rrule_lines st a)" for l
  proof -
    from rrule_lines_series[OF that] obtain ser where
      s: "ser \<in> set (recurring_series st)" and l: "l = ''RRULE:'' @ s_rrule ser" by blast
    from s assms have "single_line (s_rrule ser)" by blast
    with k show ?thesis unfolding l by (simp only: single_line_append simp_thms)
  qed
  then show ?thesis by (simp add: list_all_iff)
qed

lemma vevent_single:
  assumes "single_line (a_id (fst r))" and "single_line (snd r)"
    and "\<forall>s \<in> set (recurring_series st). single_line (s_rrule s)"
  shows "list_all single_line (vevent now st r)"
proof -
  have k: "single_line ''BEGIN:VEVENT''" "single_line ''UID:''" "single_line ''@local''"
    "single_line ''DTSTAMP:''" "single_line ''DTSTART:''" "single_line ''DTEND:''"
    "single_line ''SUMMARY:''" "single_line ''STATUS:CANCELLED''" "single_line ''END:VEVENT''"
    by (simp_all add: single_line_def)
  have u: "single_line (''UID:'' @ a_id (fst r) @ ''@local'')"
    using assms(1) k by (simp only: single_line_append simp_thms)
  have t: "single_line (''DTSTAMP:'' @ formatIcsDate now)"
    "single_line (''DTSTART:'' @ formatIcsDate (a_start_at (fst r)))"
    "single_line (''DTEND:'' @ formatIcsDate (a_end_at (fst r)))"
    using k by (simp_all only: single_line_append formatIcsDate_single simp_thms)
  have s: "single_line (''SUMMARY:'' @ strip_reserved (snd r))"
    using k strip_reserved_single[OF assms(2)] by (simp only: single_line_append simp_thms)
  have c: "list_all single_line (if a_status (fst r) = ''Canceled'' then [''STATUS:CANCELLED''] else [])"
    using k by (cases "a_status (fst r) = ''Canceled''") (simp_all only: if_True if_False list.pred_inject simp_thms)
  note rr = rrule_lines_single[OF assms(3), of "fst r"]
  show ?thesis
    unfolding vevent_def
    by (simp only: list_all_append list.pred_inject k u t s c rr simp_thms)
qed

lemma ics_lines_single:
  assumes "\<forall>a \<in> set (appointments st). single_line (a_id a)"
    and "\<forall>c \<in> set (clients st). single_line (c_name c)"
    and "\<forall>s \<in> set (recurring_series st). single_line (s_rrule s)"
  shows "list_all single_line (ics_lines now st)"
proof -
  have k: "single_line ''BEGIN:VCALENDAR''" "single_line ''VERSION:2.0''"
    "single_line ''PRODID:-//Counseling CRM//CN''" "single_line ''CALSCALE:GREGORIAN''"
    "single_line ''END:VCALENDAR''"
    by (simp_all add: single_line_def)
  have "list_all single_line (vevent now st r)" if "r \<in> set (select_ics_events st)" for r
  proof -
    from join_clients_snd[OF that[unfolded select_ics_events_def]]
    have "fst r \<in> set (appointments st)" "snd r \<in> c_name ` set (clients st)" by auto
    with assms(1,2) have "single_line (a_id (fst r))" "single_line (snd r)" by auto
    from vevent_single[OF this assms(3)] show ?thesis .
  qed
  then have v: "list_all single_line (concat (map (vevent now st) (select_ics_events st)))"
    by (simp add: list_all_iff)
  show ?thesis
    unfolding ics_lines_def
    by (simp only: list_all_append list.pred_inject k v simp_thms)
qed

lemma document_of_ics:
  assumes "\<forall>a \<in> set (appointments st). single_line (a_id a)"
    and "\<forall>c \<in> set (clients st). single_line (c_name c)"
    and "\<forall>s \<in> set (recurring_series st). single_line (s_rrule s)"
  shows "document_lines (ics now st) = ics_lines now st @ [[]]"
proof -
  obtain l0 ls where e: "ics_lines now st = l0 # ls"
    by (simp add: ics_lines_def)
  from ics_lines_single[OF assms, of now] have "\<forall>l \<in> set (l0 # ls). single_line l"
    unfolding e by (simp only: list_all_iff)
  from document_lines_join[OF this] show ?thesis
    by (simp only: ics_def e)
qed

text \<open>
  Claim C8, as amended. Take a store in which the client ids differ from each other,
  every appointment names a stored client, and no appointment id, client name or rule
  text holds a line break (a carriage return or a line feed). Then the content lines of
  the exported document are the four heading lines, one block of lines for each stored
  appointment whose status is not \<open>Canceled\<close>, in store order, and the closing line; a
  canceled appointment has no block. Each block begins with its only \<open>BEGIN:VEVENT\<close> line,
  ends with its only \<open>END:VEVENT\<close> line and holds the \<open>UID\<close> line of its appointment, so
  that the document has exactly one \<open>VEVENT\<close> for each such appointment. The block has
  one \<open>RRULE\<close> line, the stored rule text verbatim, when its appointment has a
  \<open>recurring_series_id\<close> that is not empty and names a stored series whose rule text is
  not empty; otherwise it has no \<open>RRULE\<close> line.
\<close>

theorem ics_export:
  assumes "distinct (map c_id (clients st))"
    and "\<forall>a \<in> set (appointments st). a_client_id a \<in> c_id ` set (clients st)"
    and "\<forall>a \<in> set (appointments st). single_line (a_id a)"
    and "\<forall>c \<in> set (clients st). single_line (c_name c)"
    and "\<forall>s \<in> set (recurring_series st). single_line (s_rrule s)"
  shows "map fst (select_ics_events st) = filter (\<lambda>a. a_status a \<noteq> ''Canceled'') (appointments st)
       \<and> document_lines (ics now st) =
           [''BEGIN:VCALENDAR'', ''VERSION:2.0'', ''PRODID:-//Counseling CRM//CN'', ''CALSCALE:GREGORIAN'']
           @ concat (map (vevent now st) (select_ics_events st)) @ [''END:VCALENDAR'', []]
       \<and> length (filter (\<lambda>l. l = ''BEGIN:VEVENT'') (document_lines (ics now st))) =
           length (filter (\<lambda>a. a_status a \<noteq> ''Canceled'') (appointments st))
       \<and> length (filter (\<lambda>l. l = ''END:VEVENT'') (document_lines (ics now st))) =
           length (filter (\<lambda>a. a_status a \<noteq> ''Canceled'') (appointments st))
       \<and> filter (starts_with ''UID:'') (document_lines (ics now st)) =
           map (\<lambda>a. ''UID:'' @ a_id a @ ''@local'')
             (filter (\<lambda>a. a_status a \<noteq> ''Canceled'') (appointments st))
       \<and> (\<forall>r \<in> set (select_ics_events st).
            hd (vevent now st r) = ''BEGIN:VEVENT'' \<and> last (vevent now st r) = ''END:VEVENT''
          \<and> filter (\<lambda>l. l = ''BEGIN:VEVENT'' \<or> l = ''END:VEVENT'') (vevent now st r)
              = [''BEGIN:VEVENT'', ''END:VEVENT'']
          \<and> (\<forall>sid ser. a_recurring_series_id (fst r) = Some sid \<and> sid \<noteq> []
                \<and> find (\<lambda>s. s_id s = sid) (recurring_series st) = Some ser \<and> s_rrule ser \<noteq> []
              \<longrightarrow> filter (starts_with ''RRULE:'') (vevent now st r) = [''RRULE:'' @ s_rrule ser])
          \<and> (\<not> (\<exists>sid ser. a_recurring_series_id (fst r) = Some sid \<and> sid \<noteq> []
                \<and> find (\<lambda>s. s_id s = sid) (recurring_series st) = Some ser \<and> s_rrule ser \<noteq> [])
              \<longrightarrow> filter (starts_with ''RRULE:'') (vevent now st r) = []))"
proof -
  note f = select_ics_events_fst[OF assms(1,2)]
  note d = document_of_ics[OF assms(3,4,5), of now]
  have 2: "document_lines (ics now st) =
           [''BEGIN:VCALENDAR'', ''VERSION:2.0'', ''PRODID:-//Counseling CRM//CN'', ''CALSCALE:GREGORIAN'']
           @ concat (map (vevent now st) (select_ics_events st)) @ [''END:VCALENDAR'', []]"
    unfolding d by (simp add: ics_lines_def)
  have b: "filter (\<lambda>l. l = ''BEGIN:VEVENT'') (document_lines (ics now st)) =
             map (\<lambda>r. ''BEGIN:VEVENT'') (select_ics_events st)"
    unfolding 2
    by (simp add: filter_concat_map_single[where g = "\<lambda>r. ''BEGIN:VEVENT''", OF vevent_begin])
  have "length (filter (\<lambda>l. l = ''BEGIN:VEVENT'') (document_lines (ics now st))) =
          length (map fst (select_ics_events st))"
    by (simp add: b)
  then have 3: "length (filter (\<lambda>l. l = ''BEGIN:VEVENT'') (document_lines (ics now st))) =
           length (filter (\<lambda>a. a_status a \<noteq> ''Canceled'') (appointments st))"
    by (simp only: f)
  have e: "filter (\<lambda>l. l = ''END:VEVENT'') (document_lines (ics now st)) =
             map (\<lambda>r. ''END:VEVENT'') (select_ics_events st)"
    unfolding 2
    by (simp add: filter_concat_map_single[where g = "\<lambda>r. ''END:VEVENT''", OF vevent_end])
  have "length (filter (\<lambda>l. l = ''END:VEVENT'') (document_lines (ics now st))) =
          length (map fst (select_ics_events st))"
    by (simp add: e)
  then have 6: "length (filter (\<lambda>l. l = ''END:VEVENT'') (document_lines (ics now st))) =
           length (filter (\<lambda>a. a_status a \<noteq> ''Canceled'') (appointments st))"
    by (simp only: f)
  have h: "filter (starts_with ''UID:'')
             [''BEGIN:VCALENDAR'', ''VERSION:2.0'', ''PRODID:-//Counseling CRM//CN'', ''CALSCALE:GREGORIAN'']
             = []"
        "filter (starts_with ''UID:'') [''END:VCALENDAR'', []] = []"
    by (simp_all add: starts_with_def)
  have "filter (starts_with ''UID:'') (document_lines (ics now st)) =
          map (\<lambda>r. ''UID:'' @ a_id (fst r) @ ''@local'') (select_ics_events st)"
    unfolding 2 filter_append h
    by (simp add: filter_concat_map_single[where g = "\<lambda>r. ''UID:'' @ a_id (fst r) @ ''@local''",
            OF vevent_uid])
  also have "\<dots> = map (\<lambda>a. ''UID:'' @ a_id a @ ''@local'') (map fst (select_ics_events st))"
    by simp
  finally have 4: "filter (starts_with ''UID:'') (document_lines (ics now st)) =
           map (\<lambda>a. ''UID:'' @ a_id a @ ''@local'')
             (filter (\<lambda>a. a_status a \<noteq> ''Canceled'') (appointments st))"
    by (simp only: f)
  have 5: "\<forall>r \<in> set (select_ics_events st).
            hd (vevent now st r) = ''BEGIN:VEVENT'' \<and> last (vevent now st r) = ''END:VEVENT''
          \<and> filter (\<lambda>l. l = ''BEGIN:VEVENT'' \<or> l = ''END:VEVENT'') (vevent now st r)
              = [''BEGIN:VEVENT'', ''END:VEVENT'']
          \<and> (\<forall>sid ser. a_recurring_series_id (fst r) = Some sid \<and> sid \<noteq> []
                \<and> find (\<lambda>s. s_id s = sid) (recurring_series st) = Some ser \<and> s_rrule ser \<noteq> []
              \<longrightarrow> filter (starts_with ''RRULE:'') (vevent now st r) = [''RRULE:'' @ s_rrule ser])
          \<and> (\<not> (\<exists>sid ser. a_recurring_series_id (fst r) = Some sid \<and> sid \<noteq> []
                \<and> find (\<lambda>s. s_id s = sid) (recurring_series st) = Some ser \<and> s_rrule ser \<noteq> [])
              \<longrightarrow> filter (starts_with ''RRULE:'') (vevent now st r) = [])"
  proof
    fix r
    assume "r \<in> set (select_ics_events st)"
    have r1: "\<forall>sid ser. a_recurring_series_id (fst r) = Some sid \<and> sid \<noteq> []
                \<and> find (\<lambda>s. s_id s = sid) (recurring_series st) = Some ser \<and> s_rrule ser \<noteq> []
              \<longrightarrow> filter (starts_with ''RRULE:'') (vevent now st r) = [''RRULE:'' @ s_rrule ser]"
      by (auto simp: vevent_rrule rrule_lines_def split: option.splits)
    have r2: "\<not> (\<exists>sid ser. a_recurring_series_id (fst r) = Some sid \<and> sid \<noteq> []
                \<and> find (\<lambda>s. s_id s = sid) (recurring_series st) = Some ser \<and> s_rrule ser \<noteq> [])
              \<longrightarrow> filter (starts_with ''RRULE:'') (vevent now st r) = []"
      by (auto simp: vevent_rrule rrule_lines_def split: option.splits)
    from vevent_frame[of now st r] r1 r2
    show "hd (vevent now st r) = ''BEGIN:VEVENT'' \<and> last (vevent now st r) = ''END:VEVENT''
          \<and> filter (\<lambda>l. l = ''BEGIN:VEVENT'' \<or> l = ''END:VEVENT'') (vevent now st r)
              = [''BEGIN:VEVENT'', ''END:VEVENT'']
          \<and> (\<forall>sid ser. a_recurring_series_id (fst r) = Some sid \<and> sid \<noteq> []
                \<and> find (\<lambda>s. s_id s = sid) (recurring_series st) = Some ser \<and> s_rrule ser \<noteq> []
              \<longrightarrow> filter (starts_with ''RRULE:'') (vevent now st r) = [''RRULE:'' @ s_rrule ser])
          \<and> (\<not> (\<exists>sid ser. a_recurring_series_id (fst r) = Some sid \<and> sid \<noteq> []
                \<and> find (\<lambda>s. s_id s = sid) (recurring_series st) = Some ser \<and> s_rrule ser \<noteq> [])
              \<longrightarrow> filter (starts_with ''RRULE:'') (vevent now st r) = [])"
      by (elim conjE, intro conjI)
  qed
  from f 2 3 6 4 5 show ?thesis by (intro conjI)
qed

lemma weekly_store_events:
  "select_ics_events (ics_store ''FREQ=WEEKLY;BYDAY=WE'') = [(anchor, ''Ann''), (wed_single, ''Ann'')]"
  by code_simp

lemma weekly_store_document:
  "document_lines (ics 0 (ics_store ''FREQ=WEEKLY;BYDAY=WE'')) =
     [''BEGIN:VCALENDAR'', ''VERSION:2.0'', ''PRODID:-//Counseling CRM//CN'', ''CALSCALE:GREGORIAN'',
      ''BEGIN:VEVENT'', ''UID:anchor@local'', ''DTSTAMP:19700101T000000Z'',
      ''DTSTART:20251008T100000Z'', ''DTEND:20251008T105000Z'', ''SUMMARY:Ann'',
      ''RRULE:FREQ=WEEKLY;BYDAY=WE'', ''END:VEVENT'',
      ''BEGIN:VEVENT'', ''UID:wed@local'', ''DTSTAMP:19700101T000000Z'',
      ''DTSTART:20251015T100000Z'', ''DTEND:20251015T105000Z'', ''SUMMARY:Ann'', ''END:VEVENT'',
      ''END:VCALENDAR'', '''']"
  by code_simp

theorem ics_export_witness:
  "distinct (map c_id (clients (ics_store ''FREQ=WEEKLY;BYDAY=WE'')))
   \<and> a_client_id ` set (appointments (ics_store ''FREQ=WEEKLY;BYDAY=WE''))
        \<subseteq> c_id ` set (clients (ics_store ''FREQ=WEEKLY;BYDAY=WE''))
   \<and> list_all single_line (map a_id (appointments (ics_store ''FREQ=WEEKLY;BYDAY=WE'')))
   \<and> list_all single_line (map c_name (clients (ics_store ''FREQ=WEEKLY;BYDAY=WE'')))
   \<and> list_all single_line (map s_rrule (recurring_series (ics_store ''FREQ=WEEKLY;BYDAY=WE'')))
   \<and> appointments (ics_store ''FREQ=WEEKLY;BYDAY=WE'') = [anchor, canceled_single, wed_single]
   \<and> a_status canceled_single = ''Canceled''
   \<and> document_lines (ics 0 (ics_store ''FREQ=WEEKLY;BYDAY=WE'')) =
     [''BEGIN:VCALENDAR'', ''VERSION:2.0'', ''PRODID:-//Counseling CRM//CN'', ''CALSCALE:GREGORIAN'',
      ''BEGIN:VEVENT'', ''UID:anchor@local'', ''DTSTAMP:19700101T000000Z'',
      ''DTSTART:20251008T100000Z'', ''DTEND:20251008T105000Z'', ''SUMMARY:Ann'',
      ''RRULE:FREQ=WEEKLY;BYDAY=WE'', ''END:VEVENT'',
      ''BEGIN:VEVENT'', ''UID:wed@local'', ''DTSTAMP:19700101T000000Z'',
      ''DTSTART:20251015T100000Z'', ''DTEND:20251015T105000Z'', ''SUMMARY:Ann'', ''END:VEVENT'',
      ''END:VCALENDAR'', '''']
   \<and> filter (starts_with ''UID:'') (document_lines (ics 0 (ics_store ''FREQ=WEEKLY;BYDAY=WE'')))
       = [''UID:anchor@local'', ''UID:wed@local'']
   \<and> length (filter (\<lambda>l. l = ''BEGIN:VEVENT'')
        (document_lines (ics 0 (ics_store ''FREQ=WEEKLY;BYDAY=WE'')))) = 2
   \<and> length (filter (\<lambda>l. l = ''END:VEVENT'')
        (document_lines (ics 0 (ics_store ''FREQ=WEEKLY;BYDAY=WE'')))) = 2
   \<and> filter (starts_with ''RRULE:'') (vevent 0 (ics_store ''FREQ=WEEKLY;BYDAY=WE'') (anchor, ''Ann''))
       = [''RRULE:FREQ=WEEKLY;BYDAY=WE'']
   \<and> filter (starts_with ''RRULE:'') (vevent 0 (ics_store ''FREQ=WEEKLY;BYDAY=WE'') (wed_single, ''Ann''))
       = []"
proof -
  let ?st = "ics_store ''FREQ=WEEKLY;BYDAY=WE''"
  have h1: "distinct (map c_id (clients ?st))"
    by (simp add: ics_store_def)
  have h2': "a_client_id ` set (appointments ?st) \<subseteq> c_id ` set (clients ?st)"
    by (simp add: ics_store_def ann_def anchor_def canceled_single_def wed_single_def)
  then have h2: "\<forall>a \<in> set (appointments ?st). a_client_id a \<in> c_id ` set (clients ?st)"
    by blast
  have h3': "list_all single_line (map a_id (appointments ?st))"
    by (simp add: ics_store_def anchor_def canceled_single_def wed_single_def single_line_def)
  then have h3: "\<forall>a \<in> set (appointments ?st). single_line (a_id a)"
    by (simp add: list_all_iff)
  have h4': "list_all single_line (map c_name (clients ?st))"
    by (simp add: ics_store_def ann_def single_line_def)
  then have h4: "\<forall>c \<in> set (clients ?st). single_line (c_name c)"
    by (simp add: list_all_iff)
  have h5': "list_all single_line (map s_rrule (recurring_series ?st))"
    by (simp add: ics_store_def single_line_def)
  then have h5: "\<forall>s \<in> set (recurring_series ?st). single_line (s_rrule s)"
    by (simp add: list_all_iff)
  have ap: "appointments ?st = [anchor, canceled_single, wed_single]"
    by (simp add: ics_store_def)
  have st: "a_status anchor \<noteq> ''Canceled''" "a_status canceled_single = ''Canceled''"
    "a_status wed_single \<noteq> ''Canceled''"
    by (simp_all add: anchor_def canceled_single_def wed_single_def)
  note t = ics_export[OF h1 h2 h3 h4 h5, of 0]
  from t have "filter (starts_with ''UID:'') (document_lines (ics 0 ?st)) =
           map (\<lambda>a. ''UID:'' @ a_id a @ ''@local'')
             (filter (\<lambda>a. a_status a \<noteq> ''Canceled'') (appointments ?st))"
    by blast
  then have u: "filter (starts_with ''UID:'') (document_lines (ics 0 ?st))
                  = [''UID:anchor@local'', ''UID:wed@local'']"
    unfolding ap using st by (simp add: anchor_def wed_single_def)
  from t have "length (filter (\<lambda>l. l = ''BEGIN:VEVENT'') (document_lines (ics 0 ?st))) =
           length (filter (\<lambda>a. a_status a \<noteq> ''Canceled'') (appointments ?st))"
    by blast
  then have n: "length (filter (\<lambda>l. l = ''BEGIN:VEVENT'') (document_lines (ics 0 ?st))) = 2"
    unfolding ap using st by simp
  from t have "length (filter (\<lambda>l. l = ''END:VEVENT'') (document_lines (ics 0 ?st))) =
           length (filter (\<lambda>a. a_status a \<noteq> ''Canceled'') (appointments ?st))"
    by blast
  then have e: "length (filter (\<lambda>l. l = ''END:VEVENT'') (document_lines (ics 0 ?st))) = 2"
    unfolding ap using st by simp
  from t have r: "\<forall>r \<in> set (select_ics_events ?st).
            hd (vevent 0 ?st r) = ''BEGIN:VEVENT'' \<and> last (vevent 0 ?st r) = ''END:VEVENT''
          \<and> filter (\<lambda>l. l = ''BEGIN:VEVENT'' \<or> l = ''END:VEVENT'') (vevent 0 ?st r)
              = [''BEGIN:VEVENT'', ''END:VEVENT'']
          \<and> (\<forall>sid ser. a_recurring_series_id (fst r) = Some sid \<and> sid \<noteq> []
                \<and> find (\<lambda>s. s_id s = sid) (recurring_series ?st) = Some ser \<and> s_rrule ser \<noteq> []
              \<longrightarrow> filter (starts_with ''RRULE:'') (vevent 0 ?st r) = [''RRULE:'' @ s_rrule ser])
          \<and> (\<not> (\<exists>sid ser. a_recurring_series_id (fst r) = Some sid \<and> sid \<noteq> []
                \<and> find (\<lambda>s. s_id s = sid) (recurring_series ?st) = Some ser \<and> s_rrule ser \<noteq> [])
              \<longrightarrow> filter (starts_with ''RRULE:'') (vevent 0 ?st r) = [])"
    by blast
  have a1: "a_recurring_series_id (fst (anchor, ''Ann'')) = Some ''series'' \<and> ''series'' \<noteq> []
          \<and> find (\<lambda>s. s_id s = ''series'') (recurring_series ?st)
               = Some (wed_series\<lparr>s_rrule := ''FREQ=WEEKLY;BYDAY=WE''\<rparr>)
          \<and> s_rrule (wed_series\<lparr>s_rrule := ''FREQ=WEEKLY;BYDAY=WE''\<rparr>) \<noteq> []"
    by (simp add: anchor_def ics_store_def wed_series_def)
  have "(anchor, ''Ann'') \<in> set (select_ics_events ?st)"
    by (simp add: weekly_store_events)
  with r a1 have "filter (starts_with ''RRULE:'') (vevent 0 ?st (anchor, ''Ann''))
                   = [''RRULE:'' @ s_rrule (wed_series\<lparr>s_rrule := ''FREQ=WEEKLY;BYDAY=WE''\<rparr>)]"
    by blast
  then have r1: "filter (starts_with ''RRULE:'') (vevent 0 ?st (anchor, ''Ann''))
                   = [''RRULE:FREQ=WEEKLY;BYDAY=WE'']"
    by simp
  have a2: "\<not> (\<exists>sid ser. a_recurring_series_id (fst (wed_single, ''Ann'')) = Some sid \<and> sid \<noteq> []
                \<and> find (\<lambda>s. s_id s = sid) (recurring_series ?st) = Some ser \<and> s_rrule ser \<noteq> [])"
    by (simp add: wed_single_def)
  have "(wed_single, ''Ann'') \<in> set (select_ics_events ?st)"
    by (simp add: weekly_store_events)
  with r a2 have r2: "filter (starts_with ''RRULE:'') (vevent 0 ?st (wed_single, ''Ann'')) = []"
    by blast
  from h1 h2' h3' h4' h5' ap st(2) weekly_store_document u n e r1 r2 show ?thesis by (intro conjI)
qed

text \<open>The claim as stated fails for a series whose stored rule text is empty: the
  \<open>VEVENT\<close> of its anchor has no \<open>RRULE\<close> line. It also fails for a client name that
  holds line breaks: the one appointment of the store then has two \<open>VEVENT\<close> blocks in
  the document.\<close>

theorem empty_rule_counterexample:
  "appointments (ics_store '''') = [anchor, canceled_single, wed_single]
   \<and> a_status anchor = ''Scheduled''
   \<and> a_recurring_series_id anchor = Some ''series''
   \<and> find (\<lambda>s. s_id s = ''series'') (recurring_series (ics_store ''''))
        = Some (wed_series\<lparr>s_rrule := ''''\<rparr>)
   \<and> s_rrule (wed_series\<lparr>s_rrule := ''''\<rparr>) = ''''
   \<and> document_lines (ics 0 (ics_store '''')) =
       [''BEGIN:VCALENDAR'', ''VERSION:2.0'', ''PRODID:-//Counseling CRM//CN'', ''CALSCALE:GREGORIAN'',
        ''BEGIN:VEVENT'', ''UID:anchor@local'', ''DTSTAMP:19700101T000000Z'',
        ''DTSTART:20251008T100000Z'', ''DTEND:20251008T105000Z'', ''SUMMARY:Ann'', ''END:VEVENT'',
        ''BEGIN:VEVENT'', ''UID:wed@local'', ''DTSTAMP:19700101T000000Z'',
        ''DTSTART:20251015T100000Z'', ''DTEND:20251015T105000Z'', ''SUMMARY:Ann'', ''END:VEVENT'',
        ''END:VCALENDAR'', '''']
   \<and> appointments ghost_store = [wed_single]
   \<and> a_status wed_single = ''Scheduled''
   \<and> clients ghost_store = [ghost_name]
   \<and> c_name ghost_name =
       ''Ann'' @ CRLF @ ''END:VEVENT'' @ CRLF @ ''BEGIN:VEVENT'' @ CRLF @ ''UID:ghost@local''
   \<and> document_lines (ics 0 ghost_store) =
       [''BEGIN:VCALENDAR'', ''VERSION:2.0'', ''PRODID:-//Counseling CRM//CN'', ''CALSCALE:GREGORIAN'',
        ''BEGIN:VEVENT'', ''UID:wed@local'', ''DTSTAMP:19700101T000000Z'',
        ''DTSTART:20251015T100000Z'', ''DTEND:20251015T105000Z'', ''SUMMARY:Ann'', ''END:VEVENT'',
        ''BEGIN:VEVENT'', ''UID:ghost@local'', ''END:VEVENT'',
        ''END:VCALENDAR'', '''']"
  by code_simp

end
